theory Spec2Isabelle
  imports Main "HOL-Library.AList"
begin

section \<open>Data model (index.ts, lines 5-36)\<close>

datatype TaskStatus =
    NEW
  | QUEUED
  | PLANNING
  | WAITING_FOR_PLAN_APPROVAL
  | RUNNING
  | WAITING_FOR_DIFF_APPROVAL
  | READY_FOR_PR
  | PR_CREATED
  | MERGED
  | CANCELLED
  | FAILED

text \<open>
  Timestamps are the strings of \<^verbatim>\<open>new Date().toISOString()\<close>. They are modelled by the
  millisecond count they print: for four-digit years the ISO text is ordered as the count is.
\<close>

type_synonym timestamp = nat

text \<open>
  The interface \<^verbatim>\<open>Task\<close>. The field \<^verbatim>\<open>id\<close> is named \<open>task_id\<close> (\<open>id\<close> is the identity
  function of HOL). An optional field is an \<open>option\<close>: \<open>None\<close> is \<^verbatim>\<open>undefined\<close>.
\<close>

record Task =
  task_id :: string
  title :: string
  description :: string
  repo :: string
  status :: TaskStatus
  julesSessionId :: "string option"
  githubPrUrl :: "string option"
  createdAt :: timestamp
  updatedAt :: timestamp
  error :: "string option"

text \<open>
  \<^verbatim>\<open>Partial<Task>\<close>: every field may be present or absent. \<open>None\<close> is an absent key,
  \<open>Some v\<close> a key with the value \<open>v\<close>.
\<close>

record TaskUpdates =
  task_id_upd :: "string option"
  title_upd :: "string option"
  description_upd :: "string option"
  repo_upd :: "string option"
  status_upd :: "TaskStatus option"
  julesSessionId_upd :: "string option"
  githubPrUrl_upd :: "string option"
  createdAt_upd :: "timestamp option"
  updatedAt_upd :: "timestamp option"
  error_upd :: "string option"

definition no_updates :: TaskUpdates where
  "no_updates = \<lparr>task_id_upd = None, title_upd = None, description_upd = None,
     repo_upd = None, status_upd = None, julesSessionId_upd = None, githubPrUrl_upd = None,
     createdAt_upd = None, updatedAt_upd = None, error_upd = None\<rparr>"

text \<open>
  What the code throws. \<open>Error m\<close> is \<^verbatim>\<open>new Error(m)\<close>, \<open>SyntaxError m\<close> is what
  \<^verbatim>\<open>JSON.parse\<close> throws, \<open>AxiosError m\<close> is a rejected HTTP request. Each carries its
  \<^verbatim>\<open>message\<close>.
\<close>

datatype js_error = Error string | SyntaxError string | AxiosError string

fun message :: "js_error \<Rightarrow> string" where
  "message (Error m) = m"
| "message (SyntaxError m) = m"
| "message (AxiosError m) = m"

text \<open>
  A file of the data directory. \<open>Doc t\<close> is the text \<^verbatim>\<open>JSON.stringify(t, null, 2)\<close>, which
  \<^verbatim>\<open>JSON.parse\<close> reads back as \<open>t\<close>; \<open>Malformed m\<close> is a text that \<^verbatim>\<open>JSON.parse\<close> rejects
  with a SyntaxError of message \<open>m\<close>. The directory is an association list from the id
  \<open>i\<close> (the file \<^verbatim>\<open><i>.json\<close>) to the file; its order is the order of \<^verbatim>\<open>readdir\<close>.
\<close>

text \<open>
  The code casts what \<^verbatim>\<open>JSON.parse\<close> returns to \<^verbatim>\<open>Task\<close> without a check; a text that
  parses to something that is not a task is outside the model.
\<close>

datatype task_file = Malformed string | Doc Task

type_synonym directory = "(string \<times> task_file) list"

text \<open>The requests the two clients send (JulesClient, GithubClient).\<close>

record pr_request =
  pr_owner :: string
  pr_repoName :: "string option"
  pr_title :: string
  pr_body :: string
  pr_head :: string
  pr_base :: string

datatype remote_call =
    CreateSession string string
  | GetSessionStatus string
  | ApprovePlan string
  | ApproveDiff string
  | CancelSession string
  | CreatePr pr_request

text \<open>
  The world the plugin runs in: the data directory, the number of times the clock has been
  read, and the requests sent so far, oldest first.
\<close>

record world =
  files :: directory
  reads :: nat
  calls :: "remote_call list"

text \<open>
  What the plugin does not decide: the reading of the clock at its \<open>n\<close>-th read, the answer
  of the remote services to a request given the requests sent before it (\<open>Inl m\<close> is a
  failed request with message \<open>m\<close>, \<open>Inr x\<close> the field of the response body the client
  returns: the session id, the state label, the pull request URL; ignored where the client
  returns nothing), and \<^verbatim>\<open>config.defaultRepo\<close>.
\<close>

record env =
  clock :: "nat \<Rightarrow> timestamp"
  remote :: "remote_call list \<Rightarrow> remote_call \<Rightarrow> string + string"
  defaultRepo :: string

section \<open>JavaScript helpers\<close>

text \<open>
  The truthiness test on an optional string: \<^verbatim>\<open>undefined\<close> and the empty string are
  falsy. \<open>truthy x\<close> is the string when it is truthy.
\<close>

fun truthy :: "string option \<Rightarrow> string option" where
  "truthy None = None"
| "truthy (Some s) = (if s = [] then None else Some s)"

text \<open>\<^verbatim>\<open>a || b\<close> on strings.\<close>

definition js_or :: "string option \<Rightarrow> string \<Rightarrow> string" where
  "js_or a b = (case truthy a of None \<Rightarrow> b | Some s \<Rightarrow> s)"

text \<open>\<^verbatim>\<open>new Date().toISOString()\<close>: one more read of the clock.\<close>

definition new_Date :: "env \<Rightarrow> world \<Rightarrow> timestamp \<times> world" where
  "new_Date e w = (clock e (reads w), w\<lparr>reads := Suc (reads w)\<rparr>)"

text \<open>An HTTP request: the answer, and the request appended to the log.\<close>

definition request :: "env \<Rightarrow> world \<Rightarrow> remote_call \<Rightarrow> (string + string) \<times> world" where
  "request e w c = (remote e (calls w) c, w\<lparr>calls := calls w @ [c]\<rparr>)"

definition JSON_parse :: "task_file \<Rightarrow> js_error + Task" where
  "JSON_parse f = (case f of Malformed m \<Rightarrow> Inl (SyntaxError m) | Doc t \<Rightarrow> Inr t)"

section \<open>TaskManager (index.ts, lines 38-92)\<close>

definition saveTask :: "world \<Rightarrow> Task \<Rightarrow> world" where
  "saveTask w task = w\<lparr>files := AList.update (task_id task) (Doc task) (files w)\<rparr>"

definition getTask :: "directory \<Rightarrow> string \<Rightarrow> js_error + Task option" where
  "getTask d i =
     (case map_of d i of
        None \<Rightarrow> Inr None
      | Some f \<Rightarrow> (case JSON_parse f of Inl e \<Rightarrow> Inl e | Inr t \<Rightarrow> Inr (Some t)))"

fun listTasks :: "directory \<Rightarrow> Task list" where
  "listTasks [] = []"
| "listTasks ((i, f) # d) =
     (case JSON_parse f of
        Inr t \<Rightarrow> t # listTasks d
      | Inl e \<Rightarrow> listTasks d)"

text \<open>\<^verbatim>\<open>{ ...task, ...updates }\<close>: a key of \<open>updates\<close> wins over the task's.\<close>

definition spread :: "Task \<Rightarrow> TaskUpdates \<Rightarrow> Task" where
  "spread t u =
     \<lparr>task_id = (case task_id_upd u of None \<Rightarrow> task_id t | Some v \<Rightarrow> v),
      title = (case title_upd u of None \<Rightarrow> title t | Some v \<Rightarrow> v),
      description = (case description_upd u of None \<Rightarrow> description t | Some v \<Rightarrow> v),
      repo = (case repo_upd u of None \<Rightarrow> repo t | Some v \<Rightarrow> v),
      status = (case status_upd u of None \<Rightarrow> status t | Some v \<Rightarrow> v),
      julesSessionId = (case julesSessionId_upd u of None \<Rightarrow> julesSessionId t | Some v \<Rightarrow> Some v),
      githubPrUrl = (case githubPrUrl_upd u of None \<Rightarrow> githubPrUrl t | Some v \<Rightarrow> Some v),
      createdAt = (case createdAt_upd u of None \<Rightarrow> createdAt t | Some v \<Rightarrow> v),
      updatedAt = (case updatedAt_upd u of None \<Rightarrow> updatedAt t | Some v \<Rightarrow> v),
      error = (case error_upd u of None \<Rightarrow> error t | Some v \<Rightarrow> Some v)\<rparr>"

definition updateTask :: "env \<Rightarrow> world \<Rightarrow> string \<Rightarrow> TaskUpdates \<Rightarrow> (js_error + Task) \<times> world" where
  "updateTask e w i updates =
     (case getTask (files w) i of
        Inl err \<Rightarrow> (Inl err, w)
      | Inr None \<Rightarrow> (Inl (Error (''Task not found: '' @ i)), w)
      | Inr (Some task) \<Rightarrow>
          (case new_Date e w of
             (now, w1) \<Rightarrow>
               (let updatedTask = (spread task updates)\<lparr>updatedAt := now\<rparr>
                in (Inr updatedTask, saveTask w1 updatedTask))))"

section \<open>JulesClient and GithubClient (index.ts, lines 94-165)\<close>

definition createSession :: "env \<Rightarrow> world \<Rightarrow> Task \<Rightarrow> (js_error + string) \<times> world" where
  "createSession e w task =
     (case request e w (CreateSession (repo task) (description task)) of
        (Inl m, w1) \<Rightarrow> (Inl (AxiosError m), w1)
      | (Inr sessionId, w1) \<Rightarrow> (Inr sessionId, w1))"

definition getSessionStatus :: "env \<Rightarrow> world \<Rightarrow> string \<Rightarrow> (js_error + string) \<times> world" where
  "getSessionStatus e w sessionId =
     (case request e w (GetSessionStatus sessionId) of
        (Inl m, w1) \<Rightarrow> (Inl (AxiosError m), w1)
      | (Inr state, w1) \<Rightarrow> (Inr state, w1))"

definition approvePlan :: "env \<Rightarrow> world \<Rightarrow> string \<Rightarrow> (js_error + unit) \<times> world" where
  "approvePlan e w sessionId =
     (case request e w (ApprovePlan sessionId) of
        (Inl m, w1) \<Rightarrow> (Inl (AxiosError m), w1)
      | (Inr x, w1) \<Rightarrow> (Inr (), w1))"

definition approveDiff :: "env \<Rightarrow> world \<Rightarrow> string \<Rightarrow> (js_error + unit) \<times> world" where
  "approveDiff e w sessionId =
     (case request e w (ApproveDiff sessionId) of
        (Inl m, w1) \<Rightarrow> (Inl (AxiosError m), w1)
      | (Inr x, w1) \<Rightarrow> (Inr (), w1))"

definition cancelSession :: "env \<Rightarrow> world \<Rightarrow> string \<Rightarrow> (js_error + unit) \<times> world" where
  "cancelSession e w sessionId =
     (case request e w (CancelSession sessionId) of
        (Inl m, w1) \<Rightarrow> (Inl (AxiosError m), w1)
      | (Inr x, w1) \<Rightarrow> (Inr (), w1))"

text \<open>
  \<^verbatim>\<open>const [owner, repoName] = repo.split('/')\<close>: the text before the first slash, and the
  text between the first and the second slash (\<^verbatim>\<open>undefined\<close> when there is no slash).
\<close>

definition split_repo :: "string \<Rightarrow> string \<times> string option" where
  "split_repo r =
     (takeWhile (\<lambda>c. c \<noteq> CHR ''/'') r,
      (case dropWhile (\<lambda>c. c \<noteq> CHR ''/'') r of
         [] \<Rightarrow> None
       | c # rest \<Rightarrow> Some (takeWhile (\<lambda>c. c \<noteq> CHR ''/'') rest)))"

text \<open>
  \<open>createPr\<close> takes the base branch as an argument; the one caller leaves it out, so the
  default \<^verbatim>\<open>'main'\<close> is what it passes in the model.
\<close>

definition createPr ::
  "env \<Rightarrow> world \<Rightarrow> string \<Rightarrow> string \<Rightarrow> string \<Rightarrow> string \<Rightarrow> string \<Rightarrow> (js_error + string) \<times> world" where
  "createPr e w r branch ttl bdy base =
     (case split_repo r of
        (owner, repoName) \<Rightarrow>
          (case request e w (CreatePr \<lparr>pr_owner = owner, pr_repoName = repoName,
                  pr_title = ttl, pr_body = bdy, pr_head = branch, pr_base = base\<rparr>) of
             (Inl m, w1) \<Rightarrow> (Inl (AxiosError m), w1)
           | (Inr html_url, w1) \<Rightarrow> (Inr html_url, w1)))"

section \<open>The poller (index.ts, lines 180-213)\<close>

text \<open>The mapping of the remote state label, lines 192-201.\<close>

definition map_state :: "TaskStatus \<Rightarrow> string \<Rightarrow> TaskStatus" where
  "map_state current state =
     (if state = ''WAITING_FOR_USER_PLAN_APPROVAL'' then WAITING_FOR_PLAN_APPROVAL
      else if state = ''WAITING_FOR_USER_DIFF_APPROVAL'' then WAITING_FOR_DIFF_APPROVAL
      else if state = ''DONE'' then READY_FOR_PR
      else if state = ''FAILED'' \<or> state = ''ERROR'' then FAILED
      else current)"

text \<open>
  The body of the loop for one listed task. Everything thrown inside the \<^verbatim>\<open>try\<close> (by the
  request or by \<open>updateTask\<close>) is caught and logged: the world after it is kept.
\<close>

definition poll_task :: "env \<Rightarrow> world \<Rightarrow> Task \<Rightarrow> world" where
  "poll_task e w task =
     (if status task = RUNNING \<or> status task = PLANNING \<or> status task = QUEUED then
        (case truthy (julesSessionId task) of
           None \<Rightarrow> w
         | Some sid \<Rightarrow>
             (case getSessionStatus e w sid of
                (Inl err, w1) \<Rightarrow> w1
              | (Inr state, w1) \<Rightarrow>
                  (let newStatus = map_state (status task) state
                   in if newStatus \<noteq> status task
                      then snd (updateTask e w1 (task_id task) (no_updates\<lparr>status_upd := Some newStatus\<rparr>))
                      else w1)))
      else w)"

fun poll_all :: "env \<Rightarrow> Task list \<Rightarrow> world \<Rightarrow> world" where
  "poll_all e [] w = w"
| "poll_all e (task # tasks) w = poll_all e tasks (poll_task e w task)"

definition run :: "env \<Rightarrow> world \<Rightarrow> world" where
  "run e w = poll_all e (listTasks (files w)) w"

section \<open>Gateway methods (index.ts, lines 216-291)\<close>

definition gw_listTasks :: "env \<Rightarrow> world \<Rightarrow> (js_error + Task list) \<times> world" where
  "gw_listTasks e w = (Inr (listTasks (files w)), w)"

definition gw_getTask :: "env \<Rightarrow> world \<Rightarrow> string \<Rightarrow> (js_error + Task option) \<times> world" where
  "gw_getTask e w i = (getTask (files w) i, w)"

text \<open>
  The parameters of \<^verbatim>\<open>createTask\<close>. The id, \<^verbatim>\<open>Math.random().toString(36).substring(7)\<close>,
  is an argument of the model (\<open>rid\<close>): any string the expression can give.
\<close>

record create_params =
  p_title :: string
  p_description :: string
  p_repo :: "string option"

definition createTask :: "env \<Rightarrow> world \<Rightarrow> create_params \<Rightarrow> string \<Rightarrow> (js_error + Task) \<times> world" where
  "createTask e w params rid =
     (case new_Date e w of
        (c, w1) \<Rightarrow>
     (case new_Date e w1 of
        (u, w2) \<Rightarrow>
     (let task = \<lparr>task_id = rid, title = p_title params, description = p_description params,
                  repo = js_or (p_repo params) (defaultRepo e), status = NEW,
                  julesSessionId = None, githubPrUrl = None,
                  createdAt = c, updatedAt = u, error = None\<rparr>;
          w3 = saveTask w2 task
      in (case createSession e w3 task of
            (Inr sessionId, w4) \<Rightarrow>
              (case updateTask e w4 rid
                      (no_updates\<lparr>julesSessionId_upd := Some sessionId, status_upd := Some PLANNING\<rparr>) of
                 (Inr t, w5) \<Rightarrow> (Inr t, w5)
               | (Inl err, w5) \<Rightarrow>
                   updateTask e w5 rid
                      (no_updates\<lparr>status_upd := Some FAILED, error_upd := Some (message err)\<rparr>))
          | (Inl err, w4) \<Rightarrow>
              updateTask e w4 rid
                (no_updates\<lparr>status_upd := Some FAILED, error_upd := Some (message err)\<rparr>)))))"

definition approveTask :: "env \<Rightarrow> world \<Rightarrow> string \<Rightarrow> (js_error + Task option) \<times> world" where
  "approveTask e w i =
     (case getTask (files w) i of
        Inl err \<Rightarrow> (Inl err, w)
      | Inr None \<Rightarrow> (Inl (Error ''Task not found or no session''), w)
      | Inr (Some task) \<Rightarrow>
          (case truthy (julesSessionId task) of
             None \<Rightarrow> (Inl (Error ''Task not found or no session''), w)
           | Some sid \<Rightarrow>
               if status task = WAITING_FOR_PLAN_APPROVAL then
                 (case approvePlan e w sid of
                    (Inl err, w1) \<Rightarrow> (Inl err, w1)
                  | (Inr x, w1) \<Rightarrow>
                      (case updateTask e w1 i (no_updates\<lparr>status_upd := Some RUNNING\<rparr>) of
                         (Inl err, w2) \<Rightarrow> (Inl err, w2)
                       | (Inr t, w2) \<Rightarrow> (getTask (files w2) i, w2)))
               else if status task = WAITING_FOR_DIFF_APPROVAL then
                 (case approveDiff e w sid of
                    (Inl err, w1) \<Rightarrow> (Inl err, w1)
                  | (Inr x, w1) \<Rightarrow>
                      (case updateTask e w1 i (no_updates\<lparr>status_upd := Some READY_FOR_PR\<rparr>) of
                         (Inl err, w2) \<Rightarrow> (Inl err, w2)
                       | (Inr t, w2) \<Rightarrow> (getTask (files w2) i, w2)))
               else (Inl (Error ''Task is not in a state waiting for approval''), w)))"

definition cancelTask :: "env \<Rightarrow> world \<Rightarrow> string \<Rightarrow> (js_error + Task option) \<times> world" where
  "cancelTask e w i =
     (case getTask (files w) i of
        Inl err \<Rightarrow> (Inl err, w)
      | Inr None \<Rightarrow> (Inl (Error ''Task not found''), w)
      | Inr (Some task) \<Rightarrow>
          (let w1 = (case truthy (julesSessionId task) of
                       None \<Rightarrow> w
                     | Some sid \<Rightarrow> snd (cancelSession e w sid))
           in (case updateTask e w1 i (no_updates\<lparr>status_upd := Some CANCELLED\<rparr>) of
                 (Inl err, w2) \<Rightarrow> (Inl err, w2)
               | (Inr t, w2) \<Rightarrow> (getTask (files w2) i, w2))))"

definition createPrForTask ::
  "env \<Rightarrow> world \<Rightarrow> string \<Rightarrow> string \<Rightarrow> string option \<Rightarrow> string option \<Rightarrow> (js_error + Task option) \<times> world" where
  "createPrForTask e w i branch ttl bdy =
     (case getTask (files w) i of
        Inl err \<Rightarrow> (Inl err, w)
      | Inr None \<Rightarrow> (Inl (Error ''Task not found''), w)
      | Inr (Some task) \<Rightarrow>
          if status task \<noteq> READY_FOR_PR then (Inl (Error ''Task is not ready for PR''), w)
          else
            (case createPr e w (repo task) branch (js_or ttl (title task))
                    (js_or bdy (description task)) ''main'' of
               (Inl err, w1) \<Rightarrow> (Inl err, w1)
             | (Inr prUrl, w1) \<Rightarrow>
                 (case updateTask e w1 i
                         (no_updates\<lparr>status_upd := Some PR_CREATED, githubPrUrl_upd := Some prUrl\<rparr>) of
                    (Inl err, w2) \<Rightarrow> (Inl err, w2)
                  | (Inr t, w2) \<Rightarrow> (getTask (files w2) i, w2))))"

section \<open>Runs of the plugin\<close>

text \<open>
  One invocation: a gateway method with its arguments, or one tick of the poller. \<open>exec\<close>
  keeps the world after it, \<open>exec_all\<close> runs a sequence in order.
\<close>

datatype command =
    ListTasks
  | GetTask string
  | CreateTask create_params string
  | ApproveTask string
  | CancelTask string
  | CreatePrForTask string string "string option" "string option"
  | Tick

definition exec :: "env \<Rightarrow> command \<Rightarrow> world \<Rightarrow> world" where
  "exec e c w =
     (case c of
        ListTasks \<Rightarrow> snd (gw_listTasks e w)
      | GetTask i \<Rightarrow> snd (gw_getTask e w i)
      | CreateTask params rid \<Rightarrow> snd (createTask e w params rid)
      | ApproveTask i \<Rightarrow> snd (approveTask e w i)
      | CancelTask i \<Rightarrow> snd (cancelTask e w i)
      | CreatePrForTask i branch ttl bdy \<Rightarrow> snd (createPrForTask e w i branch ttl bdy)
      | Tick \<Rightarrow> run e w)"

fun exec_all :: "env \<Rightarrow> command list \<Rightarrow> world \<Rightarrow> world" where
  "exec_all e [] w = w"
| "exec_all e (c # cs) w = exec_all e cs (exec e c w)"

section \<open>Properties of the data directory\<close>

text \<open>
  A directory as \<open>saveTask\<close> leaves it: no two files of one name, and the file
  \<^verbatim>\<open><i>.json\<close>, when it parses, holds a task whose id is \<open>i\<close>.
\<close>

definition store_wf :: "directory \<Rightarrow> bool" where
  "store_wf d =
     (distinct (map fst d) \<and>
      list_all (\<lambda>(i, f). case f of Doc t \<Rightarrow> task_id t = i | Malformed m \<Rightarrow> True) d)"

text \<open>
  Two states of one file between which at most the status and \<open>updatedAt\<close> of the task
  differ.
\<close>

definition kept :: "task_file option \<Rightarrow> task_file option \<Rightarrow> bool" where
  "kept a b =
     (a = b \<or> (\<exists>t s u. a = Some (Doc t) \<and> b = Some (Doc (t\<lparr>status := s, updatedAt := u\<rparr>))))"

text \<open>
  The timestamps of a world are in order: every stored task was created no later than it
  was last updated, and last updated no later than the next reading of the clock.
\<close>

definition times_ok :: "env \<Rightarrow> world \<Rightarrow> bool" where
  "times_ok e w =
     list_all (\<lambda>(i, f). case f of
                  Doc t \<Rightarrow> createdAt t \<le> updatedAt t \<and> updatedAt t \<le> clock e (reads w)
                | Malformed m \<Rightarrow> True) (files w)"

text \<open>
  What a run from \<open>w\<close> to \<open>w'\<close> does to the timestamps: the clock was read in between no
  fewer times than before, and every file that differs holds a task whose \<open>updatedAt\<close> is
  a reading of the clock taken during the run.
\<close>

definition stamped :: "env \<Rightarrow> world \<Rightarrow> world \<Rightarrow> bool" where
  "stamped e w w' =
     (reads w \<le> reads w' \<and>
      (\<forall>k. map_of (files w') k = map_of (files w) k \<or>
           (\<exists>t n. map_of (files w') k = Some (Doc t) \<and> updatedAt t = clock e n \<and>
                  reads w \<le> n \<and> n < reads w')))"

text \<open>
  A run that stamps what it writes, leaves the directory as \<open>saveTask\<close> leaves it, and,
  when the clock never goes back, keeps the timestamps in order.
\<close>

definition orderly :: "env \<Rightarrow> world \<Rightarrow> world \<Rightarrow> bool" where
  "orderly e w w' =
     (stamped e w w' \<and>
      (store_wf (files w) \<longrightarrow> store_wf (files w')) \<and>
      ((\<forall>m n. m \<le> n \<longrightarrow> clock e m \<le> clock e n) \<and> times_ok e w \<longrightarrow> times_ok e w'))"

text \<open>
  A listed task the poller would leave alone, when the remote answers \<open>st sid\<close> for the
  state of session \<open>sid\<close>: it is not in a polled status, or has no session id, or the
  request fails, or the label maps to the status the task has.
\<close>

definition quiet :: "(string \<Rightarrow> string + string) \<Rightarrow> Task \<Rightarrow> bool" where
  "quiet st t =
     (if status t = RUNNING \<or> status t = PLANNING \<or> status t = QUEUED then
        (case truthy (julesSessionId t) of
           None \<Rightarrow> True
         | Some sid \<Rightarrow> (case st sid of Inl m \<Rightarrow> True | Inr state \<Rightarrow> map_state (status t) state = status t))
      else True)"

section \<open>Example worlds\<close>

text \<open>
  A remote that answers every request (session \<open>s1\<close>, state \<open>DONE\<close>, a pull request URL),
  one that refuses every request, and a clock that stands still.
\<close>

definition remote_up :: "remote_call list \<Rightarrow> remote_call \<Rightarrow> string + string" where
  "remote_up h c =
     (case c of
        CreateSession r d \<Rightarrow> Inr ''s1''
      | GetSessionStatus s \<Rightarrow> Inr ''DONE''
      | CreatePr rq \<Rightarrow> Inr ''https://host/org/app/pull/7''
      | _ \<Rightarrow> Inr [])"

definition env_up :: env where
  "env_up = \<lparr>clock = (\<lambda>n. 1000 + n), remote = remote_up, defaultRepo = ''org/default''\<rparr>"

definition env_down :: env where
  "env_down = \<lparr>clock = (\<lambda>n. 1000 + n), remote = (\<lambda>h c. Inl ''ECONNREFUSED''),
      defaultRepo = ''org/default''\<rparr>"

definition env_frozen :: env where
  "env_frozen = \<lparr>clock = (\<lambda>n. 1000), remote = remote_up, defaultRepo = ''org/default''\<rparr>"

text \<open>A remote whose sessions are in a state the poller has no rule for.\<close>

definition env_busy :: env where
  "env_busy = \<lparr>clock = (\<lambda>n. 1000 + n), remote = (\<lambda>h c. Inr ''IN_PROGRESS''),
      defaultRepo = ''org/default''\<rparr>"

text \<open>A clock that is set back between two reads.\<close>

definition env_back :: env where
  "env_back = \<lparr>clock = (\<lambda>n. 1000 - n), remote = remote_up, defaultRepo = ''org/default''\<rparr>"

definition task1 :: "TaskStatus \<Rightarrow> string option \<Rightarrow> Task" where
  "task1 s sid =
     \<lparr>task_id = ''t1'', title = ''fix bug'', description = ''the bug'', repo = ''org/app'',
      status = s, julesSessionId = sid, githubPrUrl = None, createdAt = 10, updatedAt = 20,
      error = None\<rparr>"

definition world1 :: "Task \<Rightarrow> world" where
  "world1 t = \<lparr>files = [(task_id t, Doc t)], reads = 0, calls = []\<rparr>"

definition world0 :: world where
  "world0 = \<lparr>files = [], reads = 0, calls = []\<rparr>"

text \<open>A directory with a file that does not parse beside one that does.\<close>

definition world_bad :: world where
  "world_bad =
     \<lparr>files = [(''t0'', Malformed ''Unexpected end of JSON input''),
               (''t1'', Doc (task1 RUNNING None))],
      reads = 0, calls = []\<rparr>"

section \<open>Basic facts\<close>

lemmas eval_defs = approveTask_def cancelTask_def createPrForTask_def createTask_def
  updateTask_def getTask_def JSON_parse_def new_Date_def saveTask_def request_def
  approvePlan_def approveDiff_def cancelSession_def createSession_def getSessionStatus_def
  createPr_def split_repo_def js_or_def spread_def no_updates_def Let_def
  world1_def world0_def task1_def env_up_def env_down_def env_frozen_def env_back_def
  env_busy_def remote_up_def

lemma getTask_update_same: "getTask (AList.update k (Doc t) d) k = Inr (Some t)"
  by (simp add: getTask_def AList.update_conv' JSON_parse_def)

lemma getTask_update_other: "k' \<noteq> k \<Longrightarrow> getTask (AList.update k f d) k' = getTask d k'"
  by (simp add: getTask_def AList.update_conv')

lemma getTask_Some_iff: "getTask d i = Inr (Some t) \<longleftrightarrow> map_of d i = Some (Doc t)"
  by (auto simp: getTask_def JSON_parse_def split: option.splits task_file.splits)

lemma listTasks_comprehension: "listTasks d = [t. (i, Doc t) \<leftarrow> d]"
  by (induction d rule: listTasks.induct) (auto simp: JSON_parse_def split: task_file.splits)

lemma saveTask_simps:
  "files (saveTask w t) = AList.update (task_id t) (Doc t) (files w)"
  "reads (saveTask w t) = reads w"
  "calls (saveTask w t) = calls w"
  by (simp_all add: saveTask_def)

lemma updateTask_found:
  "getTask (files w) i = Inr (Some t) \<Longrightarrow>
   updateTask e w i u =
     (Inr ((spread t u)\<lparr>updatedAt := clock e (reads w)\<rparr>),
      saveTask (w\<lparr>reads := Suc (reads w)\<rparr>) ((spread t u)\<lparr>updatedAt := clock e (reads w)\<rparr>))"
  by (simp add: updateTask_def new_Date_def Let_def)

lemma updateTask_absent:
  "getTask (files w) i = Inr None \<Longrightarrow>
   updateTask e w i u = (Inl (Error (''Task not found: '' @ i)), w)"
  by (simp add: updateTask_def)

lemma updateTask_unparsed:
  "getTask (files w) i = Inl err \<Longrightarrow> updateTask e w i u = (Inl err, w)"
  by (simp add: updateTask_def)

lemma spread_status [simp]:
  "spread t (no_updates\<lparr>status_upd := Some s\<rparr>) = t\<lparr>status := s\<rparr>"
  by (simp add: spread_def no_updates_def)

lemma spread_pr [simp]:
  "spread t (no_updates\<lparr>status_upd := Some s, githubPrUrl_upd := Some u\<rparr>) =
     t\<lparr>status := s, githubPrUrl := Some u\<rparr>"
  by (simp add: spread_def no_updates_def)

lemma cancelSession_simps:
  "files (snd (cancelSession e w sid)) = files w"
  "reads (snd (cancelSession e w sid)) = reads w"
  "calls (snd (cancelSession e w sid)) = calls w @ [CancelSession sid]"
  by (simp_all add: cancelSession_def request_def split: sum.splits)

lemma createPr_simps:
  "files (snd (createPr e w r b t d base)) = files w"
  "reads (snd (createPr e w r b t d base)) = reads w"
  "calls (snd (createPr e w r b t d base)) =
     calls w @ [CreatePr \<lparr>pr_owner = fst (split_repo r), pr_repoName = snd (split_repo r),
                 pr_title = t, pr_body = d, pr_head = b, pr_base = base\<rparr>]"
  by (simp_all add: createPr_def request_def split: sum.splits prod.splits)

section \<open>The gateway methods\<close>

text \<open>
  Claim C3. For every title, description and optional repo (and every id the random
  expression gives), \<open>createTask\<close> returns a task, never an error, and the task it returns
  is the one stored under its id. When the session request succeeds the task is in
  \<open>PLANNING\<close> with \<open>julesSessionId\<close> the id the request returned; when it fails the task is
  in \<open>FAILED\<close> with \<open>error\<close> the message of the failure. It is never in \<open>NEW\<close>.
\<close>

theorem createTask_result:
  "\<exists>t. fst (createTask e w p rid) = Inr t \<and>
       getTask (files (snd (createTask e w p rid))) rid = Inr (Some t) \<and>
       task_id t = rid \<and> title t = p_title p \<and> description t = p_description p \<and>
       status t \<noteq> NEW \<and>
       (case remote e (calls w)
               (CreateSession (js_or (p_repo p) (defaultRepo e)) (p_description p)) of
          Inr sessionId \<Rightarrow>
            status t = PLANNING \<and> julesSessionId t = Some sessionId \<and> error t = None
        | Inl m \<Rightarrow> status t = FAILED \<and> error t = Some m \<and> julesSessionId t = None)"
  by (cases "remote e (calls w)
               (CreateSession (js_or (p_repo p) (defaultRepo e)) (p_description p))")
     (simp_all add: createTask_def new_Date_def createSession_def request_def Let_def
        updateTask_def getTask_def saveTask_def AList.update_conv' JSON_parse_def spread_def
        no_updates_def)

text \<open>
  The scenario of the specification: title \<open>fix bug\<close>, repo \<open>org/app\<close>, the session
  request returns \<open>s1\<close>.
\<close>

theorem createTask_result_witness:
  "\<exists>t. fst (createTask env_up world0
              \<lparr>p_title = ''fix bug'', p_description = ''the bug'', p_repo = Some ''org/app''\<rparr>
              ''k3x9'') = Inr t \<and>
       status t = PLANNING \<and> julesSessionId t = Some ''s1'' \<and> repo t = ''org/app''"
  using createTask_result [where e = env_up and w = world0 and rid = "''k3x9''"
          and p = "\<lparr>p_title = ''fix bug'', p_description = ''the bug'', p_repo = Some ''org/app''\<rparr>"]
  by (auto simp: eval_defs)

text \<open>
  Claim C5. For every task stored under its id, \<open>cancelTask\<close> returns the task with
  status \<open>CANCELLED\<close> and stores it so, whatever the remote answers to the cancel request
  (the theorem holds for every \<open>e\<close>, so also when the request fails). With a session id
  the one request sent is the cancel of that session; without one no request is sent.
\<close>

theorem cancelTask_local_authoritative:
  assumes "getTask (files w) i = Inr (Some t)" and "task_id t = i"
  shows "fst (cancelTask e w i) =
           Inr (Some (t\<lparr>status := CANCELLED, updatedAt := clock e (reads w)\<rparr>)) \<and>
         getTask (files (snd (cancelTask e w i))) i =
           Inr (Some (t\<lparr>status := CANCELLED, updatedAt := clock e (reads w)\<rparr>)) \<and>
         calls (snd (cancelTask e w i)) =
           (case truthy (julesSessionId t) of
              None \<Rightarrow> calls w
            | Some sid \<Rightarrow> calls w @ [CancelSession sid])"
proof (cases "truthy (julesSessionId t)")
  case None
  with assms show ?thesis
    by (simp add: cancelTask_def updateTask_found saveTask_simps getTask_update_same)
next
  case (Some sid)
  with assms show ?thesis
    by (simp add: cancelTask_def updateTask_found saveTask_simps getTask_update_same
          cancelSession_simps)
qed

text \<open>A running task with session \<open>s1\<close>, and a remote that refuses the cancel request.\<close>

theorem cancelTask_local_authoritative_witness:
  "remote env_down [] (CancelSession ''s1'') = Inl ''ECONNREFUSED'' \<and>
   fst (cancelTask env_down (world1 (task1 RUNNING (Some ''s1''))) ''t1'') =
     Inr (Some ((task1 RUNNING (Some ''s1''))\<lparr>status := CANCELLED, updatedAt := 1000\<rparr>)) \<and>
   calls (snd (cancelTask env_down (world1 (task1 RUNNING (Some ''s1''))) ''t1'')) =
     [CancelSession ''s1'']"
  using cancelTask_local_authoritative [where w = "world1 (task1 RUNNING (Some ''s1''))"
          and i = "''t1''" and t = "task1 RUNNING (Some ''s1'')" and e = env_down]
  by (simp add: world1_def task1_def env_down_def getTask_def JSON_parse_def)

text \<open>
  Claim C1, as the code has it. \<open>cancelTask\<close> does not look at the status. It fails only
  when no task can be read under the id: with the error \<open>Task not found\<close> when there is no
  file, with the parse error when the file is malformed; the world is then unchanged. For
  every task stored under its id, in a terminal status (\<open>MERGED\<close>, \<open>CANCELLED\<close>, \<open>FAILED\<close>)
  as in any other, it succeeds: the stored task gets status \<open>CANCELLED\<close> and a new
  \<open>updatedAt\<close>, and no other field changes.
\<close>

theorem cancelTask_any_status:
  "(case getTask (files w) i of
      Inl err \<Rightarrow> cancelTask e w i = (Inl err, w)
    | Inr None \<Rightarrow> cancelTask e w i = (Inl (Error ''Task not found''), w)
    | Inr (Some t) \<Rightarrow>
        task_id t = i \<longrightarrow>
          fst (cancelTask e w i) =
            Inr (Some (t\<lparr>status := CANCELLED, updatedAt := clock e (reads w)\<rparr>)) \<and>
          map_of (files (snd (cancelTask e w i))) i =
            Some (Doc (t\<lparr>status := CANCELLED, updatedAt := clock e (reads w)\<rparr>)))"
proof (cases "getTask (files w) i")
  case (Inl err)
  then show ?thesis by (simp add: cancelTask_def)
next
  case (Inr r)
  show ?thesis
  proof (cases r)
    case None
    with Inr show ?thesis by (simp add: cancelTask_def)
  next
    case (Some t)
    with Inr show ?thesis
      by (cases "truthy (julesSessionId t)")
         (simp_all add: cancelTask_def updateTask_found saveTask_simps getTask_update_same
            cancelSession_simps AList.update_conv')
  qed
qed

text \<open>A task in \<open>FAILED\<close> without a session, as \<open>createTask\<close> leaves it, is cancelled.\<close>

theorem cancelTask_any_status_witness:
  "fst (cancelTask env_up (world1 (task1 FAILED None)) ''t1'') =
     Inr (Some ((task1 FAILED None)\<lparr>status := CANCELLED, updatedAt := 1000\<rparr>)) \<and>
   map_of (files (snd (cancelTask env_up (world1 (task1 FAILED None)) ''t1''))) ''t1'' =
     Some (Doc ((task1 FAILED None)\<lparr>status := CANCELLED, updatedAt := 1000\<rparr>))"
  using cancelTask_any_status [where w = "world1 (task1 FAILED None)" and i = "''t1''"
          and e = env_up]
  by (simp add: world1_def task1_def env_up_def getTask_def JSON_parse_def)

text \<open>
  Claim C1 as stated fails: cancelling a task in \<open>MERGED\<close> returns no error, and the
  stored task becomes \<open>CANCELLED\<close> with \<open>updatedAt\<close> moved from 20 to 1000.
\<close>

theorem cancelTask_terminal_counterexample:
  "status (task1 MERGED None) = MERGED \<and>
   getTask (files (world1 (task1 MERGED None))) ''t1'' = Inr (Some (task1 MERGED None)) \<and>
   updatedAt (task1 MERGED None) = 20 \<and>
   fst (cancelTask env_up (world1 (task1 MERGED None)) ''t1'') =
     Inr (Some ((task1 MERGED None)\<lparr>status := CANCELLED, updatedAt := 1000\<rparr>)) \<and>
   files (snd (cancelTask env_up (world1 (task1 MERGED None)) ''t1'')) =
     [(''t1'', Doc ((task1 MERGED None)\<lparr>status := CANCELLED, updatedAt := 1000\<rparr>))]"
  by (simp add: eval_defs)

text \<open>
  Claim C6. For every task stored under its id with a session id: in a status that is
  neither \<open>WAITING_FOR_PLAN_APPROVAL\<close> nor \<open>WAITING_FOR_DIFF_APPROVAL\<close> (\<open>RUNNING\<close>, say)
  \<open>approveTask\<close> fails with \<open>Task is not in a state waiting for approval\<close> and the world
  is unchanged (no request, no write, so \<open>updatedAt\<close> as it was); in
  \<open>WAITING_FOR_PLAN_APPROVAL\<close> the one request sent is the plan approval, and in
  \<open>WAITING_FOR_DIFF_APPROVAL\<close> the diff approval; when that request succeeds the stored
  status becomes \<open>RUNNING\<close>, respectively \<open>READY_FOR_PR\<close>, and when it fails the failure is
  returned and no file is written. A stored task without a session id is refused with
  \<open>Task not found or no session\<close> whatever its status, and the world is unchanged.
\<close>

theorem approveTask_dispatch:
  assumes "getTask (files w) i = Inr (Some t)" and "task_id t = i"
  shows "case truthy (julesSessionId t) of
           None \<Rightarrow> approveTask e w i = (Inl (Error ''Task not found or no session''), w)
         | Some sid \<Rightarrow>
         (status t \<noteq> WAITING_FOR_PLAN_APPROVAL \<and> status t \<noteq> WAITING_FOR_DIFF_APPROVAL \<longrightarrow>
            approveTask e w i = (Inl (Error ''Task is not in a state waiting for approval''), w)) \<and>
         (status t = WAITING_FOR_PLAN_APPROVAL \<longrightarrow>
            calls (snd (approveTask e w i)) = calls w @ [ApprovePlan sid] \<and>
            (case remote e (calls w) (ApprovePlan sid) of
               Inl m \<Rightarrow> fst (approveTask e w i) = Inl (AxiosError m) \<and>
                          files (snd (approveTask e w i)) = files w
             | Inr x \<Rightarrow> fst (approveTask e w i) =
                            Inr (Some (t\<lparr>status := RUNNING, updatedAt := clock e (reads w)\<rparr>)) \<and>
                          map_of (files (snd (approveTask e w i))) i =
                            Some (Doc (t\<lparr>status := RUNNING, updatedAt := clock e (reads w)\<rparr>)))) \<and>
         (status t = WAITING_FOR_DIFF_APPROVAL \<longrightarrow>
            calls (snd (approveTask e w i)) = calls w @ [ApproveDiff sid] \<and>
            (case remote e (calls w) (ApproveDiff sid) of
               Inl m \<Rightarrow> fst (approveTask e w i) = Inl (AxiosError m) \<and>
                          files (snd (approveTask e w i)) = files w
             | Inr x \<Rightarrow> fst (approveTask e w i) =
                            Inr (Some (t\<lparr>status := READY_FOR_PR, updatedAt := clock e (reads w)\<rparr>)) \<and>
                          map_of (files (snd (approveTask e w i))) i =
                            Some (Doc (t\<lparr>status := READY_FOR_PR, updatedAt := clock e (reads w)\<rparr>))))"
proof (cases "truthy (julesSessionId t)")
  case None
  with assms show ?thesis by (simp add: approveTask_def)
next
  case (Some sid)
  have other: "status t \<noteq> WAITING_FOR_PLAN_APPROVAL \<and> status t \<noteq> WAITING_FOR_DIFF_APPROVAL \<longrightarrow>
      approveTask e w i = (Inl (Error ''Task is not in a state waiting for approval''), w)"
    using assms Some by (simp add: approveTask_def)
  have plan: "status t = WAITING_FOR_PLAN_APPROVAL \<longrightarrow>
            calls (snd (approveTask e w i)) = calls w @ [ApprovePlan sid] \<and>
            (case remote e (calls w) (ApprovePlan sid) of
               Inl m \<Rightarrow> fst (approveTask e w i) = Inl (AxiosError m) \<and>
                          files (snd (approveTask e w i)) = files w
             | Inr x \<Rightarrow> fst (approveTask e w i) =
                            Inr (Some (t\<lparr>status := RUNNING, updatedAt := clock e (reads w)\<rparr>)) \<and>
                          map_of (files (snd (approveTask e w i))) i =
                            Some (Doc (t\<lparr>status := RUNNING, updatedAt := clock e (reads w)\<rparr>)))"
    using assms Some
    by (cases "remote e (calls w) (ApprovePlan sid)")
       (simp_all add: approveTask_def approvePlan_def request_def updateTask_found saveTask_simps
          getTask_update_same AList.update_conv')
  have diff: "status t = WAITING_FOR_DIFF_APPROVAL \<longrightarrow>
            calls (snd (approveTask e w i)) = calls w @ [ApproveDiff sid] \<and>
            (case remote e (calls w) (ApproveDiff sid) of
               Inl m \<Rightarrow> fst (approveTask e w i) = Inl (AxiosError m) \<and>
                          files (snd (approveTask e w i)) = files w
             | Inr x \<Rightarrow> fst (approveTask e w i) =
                            Inr (Some (t\<lparr>status := READY_FOR_PR, updatedAt := clock e (reads w)\<rparr>)) \<and>
                          map_of (files (snd (approveTask e w i))) i =
                            Some (Doc (t\<lparr>status := READY_FOR_PR, updatedAt := clock e (reads w)\<rparr>)))"
    using assms Some
    by (cases "remote e (calls w) (ApproveDiff sid)")
       (simp_all add: approveTask_def approveDiff_def request_def updateTask_found saveTask_simps
          getTask_update_same AList.update_conv')
  from other plan diff show ?thesis unfolding Some by simp
qed

text \<open>
  The two scenarios of the specification: a task in \<open>RUNNING\<close> is refused and the world
  is unchanged; for a task in \<open>WAITING_FOR_DIFF_APPROVAL\<close> the diff approval is sent and
  the status becomes \<open>READY_FOR_PR\<close>.
\<close>

theorem approveTask_dispatch_witness:
  "approveTask env_up (world1 (task1 RUNNING (Some ''s1''))) ''t1'' =
     (Inl (Error ''Task is not in a state waiting for approval''),
      world1 (task1 RUNNING (Some ''s1''))) \<and>
   calls (snd (approveTask env_up (world1 (task1 WAITING_FOR_DIFF_APPROVAL (Some ''s1''))) ''t1'')) =
     [ApproveDiff ''s1''] \<and>
   fst (approveTask env_up (world1 (task1 WAITING_FOR_DIFF_APPROVAL (Some ''s1''))) ''t1'') =
     Inr (Some ((task1 WAITING_FOR_DIFF_APPROVAL (Some ''s1''))
                  \<lparr>status := READY_FOR_PR, updatedAt := 1000\<rparr>))"
  using approveTask_dispatch [where w = "world1 (task1 RUNNING (Some ''s1''))" and i = "''t1''"
          and t = "task1 RUNNING (Some ''s1'')" and e = env_up]
        approveTask_dispatch [where w = "world1 (task1 WAITING_FOR_DIFF_APPROVAL (Some ''s1''))"
          and i = "''t1''" and t = "task1 WAITING_FOR_DIFF_APPROVAL (Some ''s1'')" and e = env_up]
  by (simp add: world1_def task1_def env_up_def remote_up_def getTask_def JSON_parse_def)

text \<open>
  Claim C7. For every stored task whose status is not \<open>READY_FOR_PR\<close>, \<open>createPrForTask\<close>
  fails with \<open>Task is not ready for PR\<close> and the world is unchanged: no request, no write,
  the task (so its \<open>githubPrUrl\<close>) as it was. For a task in \<open>READY_FOR_PR\<close> stored under
  its id, when the pull request call returns a URL the task returned and stored has status
  \<open>PR_CREATED\<close> and \<open>githubPrUrl\<close> that URL.
\<close>

theorem createPrForTask_guard:
  assumes "getTask (files w) i = Inr (Some t)"
  shows "(status t \<noteq> READY_FOR_PR \<longrightarrow>
            createPrForTask e w i branch ttl bdy = (Inl (Error ''Task is not ready for PR''), w) \<and>
            getTask (files (snd (createPrForTask e w i branch ttl bdy))) i = Inr (Some t)) \<and>
         (status t = READY_FOR_PR \<and> task_id t = i \<and>
          remote e (calls w)
            (CreatePr \<lparr>pr_owner = fst (split_repo (repo t)), pr_repoName = snd (split_repo (repo t)),
                       pr_title = js_or ttl (title t), pr_body = js_or bdy (description t),
                       pr_head = branch, pr_base = ''main''\<rparr>) = Inr url \<longrightarrow>
            fst (createPrForTask e w i branch ttl bdy) =
              Inr (Some (t\<lparr>status := PR_CREATED, githubPrUrl := Some url,
                            updatedAt := clock e (reads w)\<rparr>)) \<and>
            map_of (files (snd (createPrForTask e w i branch ttl bdy))) i =
              Some (Doc (t\<lparr>status := PR_CREATED, githubPrUrl := Some url,
                            updatedAt := clock e (reads w)\<rparr>)))"
  using assms
  by (simp add: createPrForTask_def createPr_def request_def split_beta updateTask_found
        saveTask_simps getTask_update_same AList.update_conv')

text \<open>
  A task in \<open>RUNNING\<close> is refused and keeps its unset \<open>githubPrUrl\<close>; the scenario of the
  specification: branch \<open>agent/s1\<close>, the client returns \<open>https://host/org/app/pull/7\<close>.
\<close>

theorem createPrForTask_guard_witness:
  "createPrForTask env_up (world1 (task1 RUNNING (Some ''s1''))) ''t1'' ''agent/s1'' None None =
     (Inl (Error ''Task is not ready for PR''), world1 (task1 RUNNING (Some ''s1''))) \<and>
   githubPrUrl (task1 RUNNING (Some ''s1'')) = None \<and>
   fst (createPrForTask env_up (world1 (task1 READY_FOR_PR (Some ''s1''))) ''t1'' ''agent/s1''
          None None) =
     Inr (Some ((task1 READY_FOR_PR (Some ''s1''))\<lparr>status := PR_CREATED,
            githubPrUrl := Some ''https://host/org/app/pull/7'', updatedAt := 1000\<rparr>))"
  using createPrForTask_guard [where w = "world1 (task1 READY_FOR_PR (Some ''s1''))"
          and i = "''t1''" and t = "task1 READY_FOR_PR (Some ''s1'')" and e = env_up
          and branch = "''agent/s1''" and ttl = None and bdy = None
          and url = "''https://host/org/app/pull/7''"]
        createPrForTask_guard [where w = "world1 (task1 RUNNING (Some ''s1''))" and i = "''t1''"
          and t = "task1 RUNNING (Some ''s1'')" and e = env_up and branch = "''agent/s1''"
          and ttl = None and bdy = None]
  by (simp add: world1_def task1_def env_up_def remote_up_def getTask_def JSON_parse_def)

text \<open>
  Claim C9. For every call of \<open>createPrForTask\<close> on a stored task in \<open>READY_FOR_PR\<close>, one
  pull request is requested; its title is the task's title when the title argument is not
  supplied (or is the empty string) and the argument otherwise, its body is the task's
  description when the body argument is not supplied (or is the empty string) and the
  argument otherwise; its head is the branch, its base \<open>main\<close>, and owner and repository
  name are the two parts of the task's repo.
\<close>

theorem createPrForTask_defaults:
  assumes "getTask (files w) i = Inr (Some t)" and "status t = READY_FOR_PR"
  shows "\<exists>rq. calls (snd (createPrForTask e w i branch ttl bdy)) = calls w @ [CreatePr rq] \<and>
           pr_title rq = (case ttl of None \<Rightarrow> title t | Some s \<Rightarrow> if s = [] then title t else s) \<and>
           pr_body rq =
             (case bdy of None \<Rightarrow> description t | Some s \<Rightarrow> if s = [] then description t else s) \<and>
           pr_head rq = branch \<and> pr_base rq = ''main'' \<and>
           (pr_owner rq, pr_repoName rq) = split_repo (repo t)"
proof -
  let ?rq = "\<lparr>pr_owner = fst (split_repo (repo t)), pr_repoName = snd (split_repo (repo t)),
              pr_title = js_or ttl (title t), pr_body = js_or bdy (description t),
              pr_head = branch, pr_base = ''main''\<rparr>"
  have "calls (snd (createPrForTask e w i branch ttl bdy)) = calls w @ [CreatePr ?rq]"
    using assms
    by (cases "remote e (calls w) (CreatePr ?rq)")
       (simp_all add: createPrForTask_def createPr_def request_def split_beta updateTask_found
          saveTask_simps getTask_update_same split: sum.splits prod.splits)
  moreover have "pr_title ?rq =
      (case ttl of None \<Rightarrow> title t | Some s \<Rightarrow> if s = [] then title t else s)"
    by (simp add: js_or_def split: option.splits)
  moreover have "pr_body ?rq =
      (case bdy of None \<Rightarrow> description t | Some s \<Rightarrow> if s = [] then description t else s)"
    by (simp add: js_or_def split: option.splits)
  ultimately show ?thesis
    by (intro exI [of _ ?rq]) simp
qed

text \<open>No title, a body: the title is the task's, the body the argument.\<close>

theorem createPrForTask_defaults_witness:
  "\<exists>rq. calls (snd (createPrForTask env_up (world1 (task1 READY_FOR_PR (Some ''s1''))) ''t1''
                     ''agent/s1'' None (Some ''my body''))) = [CreatePr rq] \<and>
        pr_title rq = ''fix bug'' \<and> pr_body rq = ''my body'' \<and> pr_head rq = ''agent/s1'' \<and>
        pr_base rq = ''main'' \<and> pr_owner rq = ''org'' \<and> pr_repoName rq = Some ''app''"
  using createPrForTask_defaults [where w = "world1 (task1 READY_FOR_PR (Some ''s1''))"
          and i = "''t1''" and t = "task1 READY_FOR_PR (Some ''s1'')" and e = env_up
          and branch = "''agent/s1''" and ttl = None and bdy = "Some ''my body''"]
  by (simp add: world1_def task1_def getTask_def JSON_parse_def split_repo_def)

section \<open>The task store\<close>

text \<open>
  Claim C10. For every id whose file exists and does not parse, \<open>getTask\<close> of the store,
  and so the gateway method \<open>getTask\<close>, throws the parse error: it returns neither a
  record nor the not-found value. Listing does not throw: it returns the tasks of the
  files that parse, in order, and passes over the others.
\<close>

theorem getTask_malformed_throws:
  assumes "map_of (files w) i = Some (Malformed m)"
  shows "getTask (files w) i = Inl (SyntaxError m) \<and>
         gw_getTask e w i = (Inl (SyntaxError m), w) \<and>
         gw_listTasks e w = (Inr [t. (k, Doc t) \<leftarrow> files w], w)"
  using assms
  by (simp add: getTask_def gw_getTask_def gw_listTasks_def JSON_parse_def
        listTasks_comprehension)

theorem getTask_malformed_throws_witness:
  "gw_getTask env_up world_bad ''t0'' =
     (Inl (SyntaxError ''Unexpected end of JSON input''), world_bad) \<and>
   gw_listTasks env_up world_bad = (Inr [task1 RUNNING None], world_bad)"
  using getTask_malformed_throws [where w = world_bad and i = "''t0''" and e = env_up
          and m = "''Unexpected end of JSON input''"]
  by (simp add: world_bad_def)

section \<open>The poller\<close>

lemma kept_refl: "kept a a"
  by (simp add: kept_def)

lemma kept_trans:
  assumes "kept a b" and "kept b c"
  shows "kept a c"
proof (cases "a = b \<or> b = c")
  case True
  with assms show ?thesis by auto
next
  case False
  with assms obtain t s u t' s' u' where
    a: "a = Some (Doc t)" and b: "b = Some (Doc (t\<lparr>status := s, updatedAt := u\<rparr>))"
    and b': "b = Some (Doc t')" and c: "c = Some (Doc (t'\<lparr>status := s', updatedAt := u'\<rparr>))"
    unfolding kept_def by blast
  from b b' have "t' = t\<lparr>status := s, updatedAt := u\<rparr>" by simp
  with c have "c = Some (Doc (t\<lparr>status := s', updatedAt := u'\<rparr>))" by simp
  with a show ?thesis unfolding kept_def by blast
qed

lemma store_wf_key: "store_wf d \<Longrightarrow> map_of d k = Some (Doc t) \<Longrightarrow> task_id t = k"
  by (auto simp: store_wf_def list_all_iff dest!: map_of_SomeD)

lemma set_update_subset: "set (AList.update k v d) \<subseteq> insert (k, v) (set d)"
  by (induction d) auto

lemma store_wf_update: "store_wf d \<Longrightarrow> task_id t = k \<Longrightarrow> store_wf (AList.update k (Doc t) d)"
  using set_update_subset [of k "Doc t" d]
  by (auto simp: store_wf_def list_all_iff AList.distinct_update)

lemma map_state_cases:
  "map_state c s = c \<or> map_state c s \<in> {WAITING_FOR_PLAN_APPROVAL, WAITING_FOR_DIFF_APPROVAL, READY_FOR_PR, FAILED}"
  by (simp add: map_state_def)

lemma poll_task_skip:
  "\<not> (status t = RUNNING \<or> status t = PLANNING \<or> status t = QUEUED) \<or>
   truthy (julesSessionId t) = None \<Longrightarrow> poll_task e w t = w"
  by (auto simp: poll_task_def)

lemma poll_task_failed:
  "status t = RUNNING \<or> status t = PLANNING \<or> status t = QUEUED \<Longrightarrow>
   truthy (julesSessionId t) = Some sid \<Longrightarrow>
   remote e (calls w) (GetSessionStatus sid) = Inl m \<Longrightarrow>
   poll_task e w t = w\<lparr>calls := calls w @ [GetSessionStatus sid]\<rparr>"
  by (simp add: poll_task_def getSessionStatus_def request_def)

lemma poll_task_same:
  "status t = RUNNING \<or> status t = PLANNING \<or> status t = QUEUED \<Longrightarrow>
   truthy (julesSessionId t) = Some sid \<Longrightarrow>
   remote e (calls w) (GetSessionStatus sid) = Inr state \<Longrightarrow>
   map_state (status t) state = status t \<Longrightarrow>
   poll_task e w t = w\<lparr>calls := calls w @ [GetSessionStatus sid]\<rparr>"
  by (simp add: poll_task_def getSessionStatus_def request_def)

lemma poll_task_write:
  "status t = RUNNING \<or> status t = PLANNING \<or> status t = QUEUED \<Longrightarrow>
   truthy (julesSessionId t) = Some sid \<Longrightarrow>
   remote e (calls w) (GetSessionStatus sid) = Inr state \<Longrightarrow>
   map_state (status t) state \<noteq> status t \<Longrightarrow>
   poll_task e w t =
     snd (updateTask e (w\<lparr>calls := calls w @ [GetSessionStatus sid]\<rparr>) (task_id t)
            (no_updates\<lparr>status_upd := Some (map_state (status t) state)\<rparr>))"
  by (simp add: poll_task_def getSessionStatus_def request_def)

lemma updateTask_status_effect:
  "(files (snd (updateTask e w i (no_updates\<lparr>status_upd := Some s\<rparr>))) = files w \<and>
    reads (snd (updateTask e w i (no_updates\<lparr>status_upd := Some s\<rparr>))) = reads w) \<or>
   (\<exists>t0. map_of (files w) i = Some (Doc t0) \<and>
      files (snd (updateTask e w i (no_updates\<lparr>status_upd := Some s\<rparr>))) =
        AList.update (task_id t0) (Doc (t0\<lparr>status := s, updatedAt := clock e (reads w)\<rparr>)) (files w) \<and>
      reads (snd (updateTask e w i (no_updates\<lparr>status_upd := Some s\<rparr>))) = Suc (reads w))"
proof (cases "getTask (files w) i")
  case (Inl err)
  then show ?thesis by (simp add: updateTask_unparsed)
next
  case (Inr r)
  show ?thesis
  proof (cases r)
    case None
    with Inr show ?thesis by (simp add: updateTask_absent)
  next
    case (Some t0)
    with Inr have g: "getTask (files w) i = Inr (Some t0)" by simp
    then have "map_of (files w) i = Some (Doc t0)" by (simp add: getTask_Some_iff)
    with g show ?thesis by (simp add: updateTask_found saveTask_simps)
  qed
qed

lemma poll_task_effect:
  "(files (poll_task e w t) = files w \<and> reads (poll_task e w t) = reads w) \<or>
   (\<exists>t0 s. map_of (files w) (task_id t) = Some (Doc t0) \<and>
      files (poll_task e w t) =
        AList.update (task_id t0) (Doc (t0\<lparr>status := s, updatedAt := clock e (reads w)\<rparr>)) (files w) \<and>
      reads (poll_task e w t) = Suc (reads w) \<and>
      s \<in> {WAITING_FOR_PLAN_APPROVAL, WAITING_FOR_DIFF_APPROVAL, READY_FOR_PR, FAILED})"
proof (cases "\<not> (status t = RUNNING \<or> status t = PLANNING \<or> status t = QUEUED) \<or>
   truthy (julesSessionId t) = None")
  case True
  then show ?thesis by (simp add: poll_task_skip)
next
  case False
  then obtain sid where p: "status t = RUNNING \<or> status t = PLANNING \<or> status t = QUEUED"
    and sid: "truthy (julesSessionId t) = Some sid" by auto
  show ?thesis
  proof (cases "remote e (calls w) (GetSessionStatus sid)")
    case (Inl m)
    from poll_task_failed [OF p sid Inl] show ?thesis by simp
  next
    case (Inr state)
    show ?thesis
    proof (cases "map_state (status t) state = status t")
      case True
      from poll_task_same [OF p sid Inr True] show ?thesis by simp
    next
      case False
      with map_state_cases [of "status t" state]
      have s: "map_state (status t) state \<in>
          {WAITING_FOR_PLAN_APPROVAL, WAITING_FOR_DIFF_APPROVAL, READY_FOR_PR, FAILED}" by blast
      let ?w1 = "w\<lparr>calls := calls w @ [GetSessionStatus sid]\<rparr>"
      from updateTask_status_effect [of e ?w1 "task_id t" "map_state (status t) state"] s
      show ?thesis
        unfolding poll_task_write [OF p sid Inr False] by auto
    qed
  qed
qed

lemma poll_task_frame:
  assumes "store_wf (files w)"
  shows "store_wf (files (poll_task e w t)) \<and>
         kept (map_of (files w) k) (map_of (files (poll_task e w t)) k)"
  using poll_task_effect [of e w t]
proof (elim disjE exE conjE)
  assume "files (poll_task e w t) = files w"
  with assms show ?thesis by (simp add: kept_refl)
next
  fix t0 s
  assume m: "map_of (files w) (task_id t) = Some (Doc t0)"
    and f: "files (poll_task e w t) =
        AList.update (task_id t0) (Doc (t0\<lparr>status := s, updatedAt := clock e (reads w)\<rparr>)) (files w)"
  from assms m have k: "task_id t0 = task_id t" by (rule store_wf_key)
  have "store_wf (files (poll_task e w t))"
    unfolding f using assms by (intro store_wf_update) simp_all
  moreover have "kept (map_of (files w) k) (map_of (files (poll_task e w t)) k)"
    unfolding f using m k by (auto simp: AList.update_conv' kept_def)
  ultimately show ?thesis by simp
qed

lemma poll_all_frame:
  "store_wf (files w) \<Longrightarrow>
   store_wf (files (poll_all e ts w)) \<and> kept (map_of (files w) k) (map_of (files (poll_all e ts w)) k)"
proof (induction ts arbitrary: w)
  case Nil
  then show ?case by (simp add: kept_refl)
next
  case (Cons t ts)
  from poll_task_frame [OF Cons.prems, of e t k]
  have 1: "store_wf (files (poll_task e w t))"
    and 2: "kept (map_of (files w) k) (map_of (files (poll_task e w t)) k)" by simp_all
  from Cons.IH [OF 1] 2 show ?case
    by (auto intro: kept_trans)
qed

text \<open>
  Claim C8. In a directory as \<open>saveTask\<close> leaves it, one tick of the poller leaves every
  file either as it was or holding the same task with another status and \<open>updatedAt\<close>:
  \<open>id\<close>, \<open>title\<close>, \<open>description\<close>, \<open>repo\<close>, \<open>julesSessionId\<close>, \<open>githubPrUrl\<close>, \<open>createdAt\<close>
  and \<open>error\<close> are those of the task before the tick.
\<close>

theorem poller_frame:
  assumes "store_wf (files w)"
  shows "map_of (files (run e w)) k = map_of (files w) k \<or>
         (\<exists>t t'. map_of (files w) k = Some (Doc t) \<and> map_of (files (run e w)) k = Some (Doc t') \<and>
            task_id t' = task_id t \<and> title t' = title t \<and> description t' = description t \<and>
            repo t' = repo t \<and> julesSessionId t' = julesSessionId t \<and>
            githubPrUrl t' = githubPrUrl t \<and> createdAt t' = createdAt t \<and> error t' = error t)"
proof -
  from poll_all_frame [OF assms, of e "listTasks (files w)" k]
  have "kept (map_of (files w) k) (map_of (files (run e w)) k)"
    by (simp add: run_def)
  then show ?thesis
    unfolding kept_def by auto
qed

text \<open>
  The scenario of the specification: the tick sees the state \<open>DONE\<close> for a task in
  \<open>RUNNING\<close>, which becomes \<open>READY_FOR_PR\<close>.
\<close>

theorem poller_frame_witness:
  "store_wf (files (world1 (task1 RUNNING (Some ''s1'')))) \<and>
   map_of (files (run env_up (world1 (task1 RUNNING (Some ''s1''))))) ''t1'' =
     Some (Doc ((task1 RUNNING (Some ''s1''))\<lparr>status := READY_FOR_PR, updatedAt := 1000\<rparr>))"
  using poller_frame [where w = "world1 (task1 RUNNING (Some ''s1''))" and e = env_up and k = "''t1''"]
  by (simp add: run_def poll_task_def map_state_def store_wf_def eval_defs)


lemma map_state_unmapped:
  "state \<notin> {''WAITING_FOR_USER_PLAN_APPROVAL'', ''WAITING_FOR_USER_DIFF_APPROVAL'', ''DONE'',
              ''FAILED'', ''ERROR''} \<Longrightarrow> map_state c state = c"
  by (simp add: map_state_def)

lemma poll_task_no_write:
  assumes "truthy (julesSessionId t) = Some sid"
      and "remote e (calls w) (GetSessionStatus sid) = Inr state"
      and "map_state (status t) state = status t"
  shows "files (poll_task e w t) = files w \<and> reads (poll_task e w t) = reads w"
proof (cases "status t = RUNNING \<or> status t = PLANNING \<or> status t = QUEUED")
  case True
  from poll_task_same [OF True assms] show ?thesis by simp
next
  case False
  then show ?thesis by (simp add: poll_task_skip)
qed

lemma poll_task_quiet:
  assumes st: "\<forall>h sid. remote e h (GetSessionStatus sid) = st sid" and q: "quiet st t"
  shows "files (poll_task e w t) = files w"
proof (cases "\<not> (status t = RUNNING \<or> status t = PLANNING \<or> status t = QUEUED) \<or>
   truthy (julesSessionId t) = None")
  case True
  then show ?thesis by (simp add: poll_task_skip)
next
  case False
  then obtain sid where p: "status t = RUNNING \<or> status t = PLANNING \<or> status t = QUEUED"
    and sid: "truthy (julesSessionId t) = Some sid" by auto
  show ?thesis
  proof (cases "st sid")
    case (Inl m)
    with st have "remote e (calls w) (GetSessionStatus sid) = Inl m" by simp
    from poll_task_failed [OF p sid this] show ?thesis by simp
  next
    case (Inr state)
    with q p sid have same: "map_state (status t) state = status t"
      by (auto simp: quiet_def)
    from st Inr have "remote e (calls w) (GetSessionStatus sid) = Inr state" by simp
    from poll_task_same [OF p sid this same] show ?thesis by simp
  qed
qed

lemma poll_all_quiet:
  assumes st: "\<forall>h sid. remote e h (GetSessionStatus sid) = st sid"
  shows "\<forall>t \<in> set ts. quiet st t \<Longrightarrow> files (poll_all e ts w) = files w"
proof (induction ts arbitrary: w)
  case Nil
  then show ?case by simp
next
  case (Cons t ts)
  then have "files (poll_all e ts (poll_task e w t)) = files (poll_task e w t)" by simp
  also have "\<dots> = files w" using Cons.prems by (simp add: poll_task_quiet [OF st])
  finally show ?case by simp
qed

lemma poll_task_not_quiet:
  assumes st: "\<forall>h sid. remote e h (GetSessionStatus sid) = st sid" and q: "\<not> quiet st t"
      and m: "map_of (files w) (task_id t) = Some (Doc t)"
  shows "\<exists>s. files (poll_task e w t) =
            AList.update (task_id t) (Doc (t\<lparr>status := s, updatedAt := clock e (reads w)\<rparr>)) (files w) \<and>
          s \<in> {WAITING_FOR_PLAN_APPROVAL, WAITING_FOR_DIFF_APPROVAL, READY_FOR_PR, FAILED}"
proof -
  from q obtain sid state where p: "status t = RUNNING \<or> status t = PLANNING \<or> status t = QUEUED"
    and sid: "truthy (julesSessionId t) = Some sid" and a: "st sid = Inr state"
    and ne: "map_state (status t) state \<noteq> status t"
    by (auto simp: quiet_def split: if_splits option.splits sum.splits)
  from st a have r: "remote e (calls w) (GetSessionStatus sid) = Inr state" by simp
  let ?w1 = "w\<lparr>calls := calls w @ [GetSessionStatus sid]\<rparr>"
  from m have g: "getTask (files ?w1) (task_id t) = Inr (Some t)" by (simp add: getTask_Some_iff)
  from ne map_state_cases [of "status t" state]
  have "map_state (status t) state \<in>
          {WAITING_FOR_PLAN_APPROVAL, WAITING_FOR_DIFF_APPROVAL, READY_FOR_PR, FAILED}" by blast
  then show ?thesis
    unfolding poll_task_write [OF p sid r ne]
    by (intro exI [of _ "map_state (status t) state"])
       (simp add: updateTask_found [OF g] saveTask_simps)
qed

lemma quiet_after_write:
  "s \<in> {WAITING_FOR_PLAN_APPROVAL, WAITING_FOR_DIFF_APPROVAL, READY_FOR_PR, FAILED} \<Longrightarrow>
   quiet st (t\<lparr>status := s, updatedAt := u\<rparr>)"
  by (auto simp: quiet_def)

lemma poll_all_settles:
  assumes st: "\<forall>h sid. remote e h (GetSessionStatus sid) = st sid"
  shows "store_wf (files w) \<Longrightarrow> distinct (map task_id ts) \<Longrightarrow>
         \<forall>t \<in> set ts. map_of (files w) (task_id t) = Some (Doc t) \<Longrightarrow>
         \<forall>k t. map_of (files w) k = Some (Doc t) \<longrightarrow> quiet st t \<or> t \<in> set ts \<Longrightarrow>
         store_wf (files (poll_all e ts w)) \<and>
         (\<forall>k t. map_of (files (poll_all e ts w)) k = Some (Doc t) \<longrightarrow> quiet st t)"
proof (induction ts arbitrary: w)
  case Nil
  then show ?case by simp
next
  case (Cons t ts)
  let ?w' = "poll_task e w t"
  have here: "map_of (files w) (task_id t) = Some (Doc t)" using Cons.prems(3) by simp
  have wf': "store_wf (files ?w')" using poll_task_frame [OF Cons.prems(1)] by simp
  have dist: "distinct (map task_id ts)" and fresh: "\<forall>r \<in> set ts. task_id r \<noteq> task_id t"
    using Cons.prems(2) by (auto simp: image_iff)
  have step: "(\<forall>r \<in> set ts. map_of (files ?w') (task_id r) = Some (Doc r)) \<and>
              (\<forall>k r. map_of (files ?w') k = Some (Doc r) \<longrightarrow> quiet st r \<or> r \<in> set ts)"
  proof (cases "quiet st t")
    case True
    then have "files ?w' = files w" by (rule poll_task_quiet [OF st])
    with Cons.prems(3,4) True show ?thesis by auto
  next
    case False
    from poll_task_not_quiet [OF st False here] obtain s where
      f: "files ?w' = AList.update (task_id t)
            (Doc (t\<lparr>status := s, updatedAt := clock e (reads w)\<rparr>)) (files w)"
      and s: "s \<in> {WAITING_FOR_PLAN_APPROVAL, WAITING_FOR_DIFF_APPROVAL, READY_FOR_PR, FAILED}"
      by blast
    have a: "\<forall>r \<in> set ts. map_of (files ?w') (task_id r) = Some (Doc r)"
      using Cons.prems(3) fresh by (simp add: f AList.update_conv')
    have b: "\<forall>k r. map_of (files ?w') k = Some (Doc r) \<longrightarrow> quiet st r \<or> r \<in> set ts"
    proof (intro allI impI)
      fix k r
      assume kr: "map_of (files ?w') k = Some (Doc r)"
      show "quiet st r \<or> r \<in> set ts"
      proof (cases "k = task_id t")
        case True
        with kr f have "r = t\<lparr>status := s, updatedAt := clock e (reads w)\<rparr>"
          by (simp add: AList.update_conv')
        with s show ?thesis by (simp add: quiet_after_write)
      next
        case False
        with kr f have old: "map_of (files w) k = Some (Doc r)" by (simp add: AList.update_conv')
        with Cons.prems(4) have "quiet st r \<or> r \<in> set (t # ts)" by blast
        moreover have "r \<noteq> t"
        proof
          assume "r = t"
          with old Cons.prems(1) have "task_id t = k" by (simp add: store_wf_key)
          with False show False by simp
        qed
        ultimately show ?thesis by auto
      qed
    qed
    from a b show ?thesis by simp
  qed
  from Cons.IH [OF wf' dist] step show ?case by simp
qed

lemma listTasks_set: "set (listTasks d) = {t. \<exists>k. (k, Doc t) \<in> set d}"
  by (induction d rule: listTasks.induct) (auto simp: JSON_parse_def split: task_file.splits)

lemma store_wf_Cons:
  "store_wf ((k, f) # d) \<longleftrightarrow>
     k \<notin> fst ` set d \<and> (case f of Doc t \<Rightarrow> task_id t = k | Malformed m \<Rightarrow> True) \<and> store_wf d"
  by (auto simp: store_wf_def)

lemma listTasks_distinct: "store_wf d \<Longrightarrow> distinct (map task_id (listTasks d))"
proof (induction d rule: listTasks.induct)
  case 1
  then show ?case by simp
next
  case (2 i f d)
  then have wf: "store_wf d" and new: "i \<notin> fst ` set d"
    and key: "case f of Doc t \<Rightarrow> task_id t = i | Malformed m \<Rightarrow> True"
    by (simp_all add: store_wf_Cons)
  show ?case
  proof (cases f)
    case (Malformed m)
    with 2 wf show ?thesis by (simp add: JSON_parse_def)
  next
    case (Doc t)
    have "task_id t \<notin> task_id ` set (listTasks d)"
    proof
      assume "task_id t \<in> task_id ` set (listTasks d)"
      then obtain r k where r: "(k, Doc r) \<in> set d" and eq: "task_id r = task_id t"
        by (auto simp: listTasks_set)
      from wf r have "task_id r = k" by (auto simp: store_wf_def list_all_iff)
      with r eq key Doc new show False by force
    qed
    with 2 wf Doc show ?thesis by (simp add: JSON_parse_def)
  qed
qed

lemma listTasks_stored:
  assumes "store_wf d"
  shows "t \<in> set (listTasks d) \<longleftrightarrow> map_of d (task_id t) = Some (Doc t)"
proof
  assume "t \<in> set (listTasks d)"
  then obtain k where k: "(k, Doc t) \<in> set d" by (auto simp: listTasks_set)
  with assms have "task_id t = k" by (auto simp: store_wf_def list_all_iff)
  with k assms show "map_of d (task_id t) = Some (Doc t)" by (simp add: store_wf_def)
next
  assume "map_of d (task_id t) = Some (Doc t)"
  then show "t \<in> set (listTasks d)" by (auto simp: listTasks_set dest: map_of_SomeD)
qed

lemma run_settles:
  assumes st: "\<forall>h sid. remote e h (GetSessionStatus sid) = st sid" and wf: "store_wf (files w)"
  shows "store_wf (files (run e w)) \<and> (\<forall>t \<in> set (listTasks (files (run e w))). quiet st t)"
proof -
  have 3: "\<forall>t \<in> set (listTasks (files w)). map_of (files w) (task_id t) = Some (Doc t)"
    using wf by (simp add: listTasks_stored)
  have 4: "\<forall>k t. map_of (files w) k = Some (Doc t) \<longrightarrow> quiet st t \<or> t \<in> set (listTasks (files w))"
    by (auto simp: listTasks_set dest: map_of_SomeD)
  from poll_all_settles [OF st wf listTasks_distinct [OF wf] 3 4]
  have wf': "store_wf (files (run e w))"
    and q: "\<forall>k t. map_of (files (run e w)) k = Some (Doc t) \<longrightarrow> quiet st t"
    by (simp_all add: run_def)
  from q have "\<forall>t \<in> set (listTasks (files (run e w))). quiet st t"
    using listTasks_stored [OF wf'] by blast
  with wf' show ?thesis by simp
qed

text \<open>
  Claim C4. For a listed task with a session id, when the state label fetched maps to
  the status the task has, the poller writes no file and does not read the clock; a label
  that is none of \<open>WAITING_FOR_USER_PLAN_APPROVAL\<close>, \<open>WAITING_FOR_USER_DIFF_APPROVAL\<close>,
  \<open>DONE\<close>, \<open>FAILED\<close>, \<open>ERROR\<close> maps every status to itself. So, in a directory as
  \<open>saveTask\<close> leaves it and with a remote whose answer on the state of a session does not
  change, a second tick leaves every file as the first tick left it, \<open>updatedAt\<close>
  included.
\<close>

theorem poller_idempotent:
  "(truthy (julesSessionId t) = Some sid \<and>
    remote e (calls w) (GetSessionStatus sid) = Inr state \<and>
    map_state (status t) state = status t \<longrightarrow>
      files (poll_task e w t) = files w \<and> reads (poll_task e w t) = reads w) \<and>
   (state \<notin> {''WAITING_FOR_USER_PLAN_APPROVAL'', ''WAITING_FOR_USER_DIFF_APPROVAL'', ''DONE'',
               ''FAILED'', ''ERROR''} \<longrightarrow> map_state c state = c) \<and>
   (store_wf (files w) \<and> (\<forall>h sid. remote e h (GetSessionStatus sid) = st sid) \<longrightarrow>
      files (run e (run e w)) = files (run e w))"
proof (intro conjI impI)
  assume "truthy (julesSessionId t) = Some sid \<and>
    remote e (calls w) (GetSessionStatus sid) = Inr state \<and>
    map_state (status t) state = status t"
  then have "files (poll_task e w t) = files w \<and> reads (poll_task e w t) = reads w"
    using poll_task_no_write [of t sid e w state] by simp
  then show "files (poll_task e w t) = files w" and "reads (poll_task e w t) = reads w"
    by simp_all
next
  assume "state \<notin> {''WAITING_FOR_USER_PLAN_APPROVAL'', ''WAITING_FOR_USER_DIFF_APPROVAL'', ''DONE'',
               ''FAILED'', ''ERROR''}"
  then show "map_state c state = c" by (rule map_state_unmapped)
next
  assume a: "store_wf (files w) \<and> (\<forall>h sid. remote e h (GetSessionStatus sid) = st sid)"
  then have st: "\<forall>h sid. remote e h (GetSessionStatus sid) = st sid" and wf: "store_wf (files w)"
    by simp_all
  from run_settles [OF st wf]
  have "\<forall>t \<in> set (listTasks (files (run e w))). quiet st t" by simp
  from poll_all_quiet [OF st this]
  show "files (run e (run e w)) = files (run e w)"
    by (simp add: run_def)
qed

text \<open>
  A task in \<open>RUNNING\<close>: with the remote state \<open>IN_PROGRESS\<close> a tick writes nothing; with
  the remote state \<open>DONE\<close> the first tick moves it to \<open>READY_FOR_PR\<close> at reading 1000 and
  the second tick changes nothing.
\<close>

theorem poller_idempotent_witness:
  "store_wf (files (world1 (task1 RUNNING (Some ''s1'')))) \<and>
   files (poll_task env_busy (world1 (task1 RUNNING (Some ''s1''))) (task1 RUNNING (Some ''s1''))) =
     files (world1 (task1 RUNNING (Some ''s1''))) \<and>
   map_state RUNNING ''IN_PROGRESS'' = RUNNING \<and>
   files (run env_up (run env_up (world1 (task1 RUNNING (Some ''s1''))))) =
     files (run env_up (world1 (task1 RUNNING (Some ''s1'')))) \<and>
   files (run env_up (world1 (task1 RUNNING (Some ''s1'')))) =
     [(''t1'', Doc ((task1 RUNNING (Some ''s1''))\<lparr>status := READY_FOR_PR, updatedAt := 1000\<rparr>))]"
proof -
  let ?t = "task1 RUNNING (Some ''s1'')"
  let ?w = "world1 ?t"
  have wf: "store_wf (files ?w)"
    by (simp add: store_wf_def world1_def task1_def)
  have same: "\<forall>h sid. remote env_up h (GetSessionStatus sid) = Inr ''DONE''"
    by (simp add: env_up_def remote_up_def)
  have busy: "truthy (julesSessionId ?t) = Some ''s1'' \<and>
      remote env_busy (calls ?w) (GetSessionStatus ''s1'') = Inr ''IN_PROGRESS'' \<and>
      map_state (status ?t) ''IN_PROGRESS'' = status ?t"
    by (simp add: task1_def env_busy_def map_state_def)
  have unmapped: "''IN_PROGRESS'' \<notin> {''WAITING_FOR_USER_PLAN_APPROVAL'',
      ''WAITING_FOR_USER_DIFF_APPROVAL'', ''DONE'', ''FAILED'', ''ERROR''}"
    by simp
  note inst = poller_idempotent [where t = ?t and sid = "''s1''" and e = env_busy and w = ?w
         and state = "''IN_PROGRESS''" and c = RUNNING]
  from inst [THEN conjunct1, THEN mp, OF busy]
  have 1: "files (poll_task env_busy ?w ?t) = files ?w" by (rule conjunct1)
  from inst [THEN conjunct2, THEN conjunct1, THEN mp, OF unmapped]
  have 2: "map_state RUNNING ''IN_PROGRESS'' = RUNNING" .
  from poller_idempotent [where e = env_up and w = ?w and st = "\<lambda>sid. Inr ''DONE''",
         THEN conjunct2, THEN conjunct2, THEN mp, OF conjI [OF wf same]]
  have 3: "files (run env_up (run env_up ?w)) = files (run env_up ?w)" .
  have 4: "files (run env_up ?w) =
     [(''t1'', Doc (?t\<lparr>status := READY_FOR_PR, updatedAt := 1000\<rparr>))]"
    by (simp add: run_def poll_task_def map_state_def eval_defs)
  from wf 1 2 3 4 show ?thesis by (intro conjI)
qed

section \<open>Timestamps\<close>

lemma stamped_same: "files w' = files w \<Longrightarrow> reads w' = reads w \<Longrightarrow> stamped e w w'"
  by (simp add: stamped_def)

lemma stamped_trans:
  assumes "stamped e a b" and "stamped e b c"
  shows "stamped e a c"
  unfolding stamped_def
proof (intro conjI allI)
  show "reads a \<le> reads c" using assms by (simp add: stamped_def)
next
  fix k
  from assms have ab: "reads a \<le> reads b" and bc: "reads b \<le> reads c"
    by (simp_all add: stamped_def)
  from assms(2) have "map_of (files c) k = map_of (files b) k \<or>
      (\<exists>t n. map_of (files c) k = Some (Doc t) \<and> updatedAt t = clock e n \<and> reads b \<le> n \<and> n < reads c)"
    by (simp add: stamped_def)
  moreover from assms(1) have "map_of (files b) k = map_of (files a) k \<or>
      (\<exists>t n. map_of (files b) k = Some (Doc t) \<and> updatedAt t = clock e n \<and> reads a \<le> n \<and> n < reads b)"
    by (simp add: stamped_def)
  ultimately show "map_of (files c) k = map_of (files a) k \<or>
      (\<exists>t n. map_of (files c) k = Some (Doc t) \<and> updatedAt t = clock e n \<and> reads a \<le> n \<and> n < reads c)"
    using ab bc by (elim disjE exE conjE) (simp, (rule disjI2, force)+)
qed

lemma updateTask_world:
  "snd (updateTask e w i u) = w \<or>
   (\<exists>t0. map_of (files w) i = Some (Doc t0) \<and>
      snd (updateTask e w i u) =
        saveTask (w\<lparr>reads := Suc (reads w)\<rparr>) ((spread t0 u)\<lparr>updatedAt := clock e (reads w)\<rparr>))"
proof (cases "getTask (files w) i")
  case (Inl err)
  then show ?thesis by (simp add: updateTask_unparsed)
next
  case (Inr r)
  show ?thesis
  proof (cases r)
    case None
    with Inr show ?thesis by (simp add: updateTask_absent)
  next
    case (Some t0)
    with Inr have g: "getTask (files w) i = Inr (Some t0)" by simp
    then have "map_of (files w) i = Some (Doc t0)" by (simp add: getTask_Some_iff)
    with g show ?thesis by (simp add: updateTask_found)
  qed
qed

lemma stamped_updateTask: "stamped e w (snd (updateTask e w i u))"
  using updateTask_world [of e w i u]
proof (elim disjE exE conjE)
  assume "snd (updateTask e w i u) = w"
  then show ?thesis by (simp add: stamped_same)
next
  fix t0
  let ?t = "(spread t0 u)\<lparr>updatedAt := clock e (reads w)\<rparr>"
  assume w': "snd (updateTask e w i u) = saveTask (w\<lparr>reads := Suc (reads w)\<rparr>) ?t"
  have "map_of (files (saveTask (w\<lparr>reads := Suc (reads w)\<rparr>) ?t)) k = map_of (files w) k \<or>
         (\<exists>t n. map_of (files (saveTask (w\<lparr>reads := Suc (reads w)\<rparr>) ?t)) k = Some (Doc t) \<and>
            updatedAt t = clock e n \<and> reads w \<le> n \<and> n < Suc (reads w))" for k
  proof (cases "k = task_id ?t")
    case True
    then have "map_of (files (saveTask (w\<lparr>reads := Suc (reads w)\<rparr>) ?t)) k = Some (Doc ?t) \<and>
        updatedAt ?t = clock e (reads w) \<and> reads w \<le> reads w \<and> reads w < Suc (reads w)"
      by (simp add: saveTask_simps AList.update_conv')
    then show ?thesis by blast
  next
    case False
    then show ?thesis by (simp add: saveTask_simps AList.update_conv')
  qed
  then show ?thesis
    unfolding w' stamped_def by (simp add: saveTask_simps)
qed

lemma store_wf_updateTask:
  "store_wf (files w) \<Longrightarrow> store_wf (files (snd (updateTask e w i u)))"
  using updateTask_world [of e w i u]
  by (auto simp: saveTask_simps intro!: store_wf_update)

lemma times_ok_iff:
  "times_ok e w \<longleftrightarrow>
     (\<forall>(k, f) \<in> set (files w). \<forall>t. f = Doc t \<longrightarrow>
         createdAt t \<le> updatedAt t \<and> updatedAt t \<le> clock e (reads w))"
  by (auto simp: times_ok_def list_all_iff split: task_file.splits)

lemma times_ok_later:
  assumes mono: "\<forall>m n. m \<le> n \<longrightarrow> clock e m \<le> clock e n"
      and "times_ok e w" and "files w' = files w" and "reads w \<le> reads w'"
  shows "times_ok e w'"
proof -
  from mono assms(4) have "clock e (reads w) \<le> clock e (reads w')" by blast
  with assms(2,3) show ?thesis
    unfolding times_ok_iff by fastforce
qed

lemma times_ok_updateTask:
  assumes mono: "\<forall>m n. m \<le> n \<longrightarrow> clock e m \<le> clock e n"
      and ok: "times_ok e w" and u: "createdAt_upd u = None"
  shows "times_ok e (snd (updateTask e w i u))"
  using updateTask_world [of e w i u]
proof (elim disjE exE conjE)
  assume "snd (updateTask e w i u) = w"
  with ok show ?thesis by simp
next
  fix t0
  assume m: "map_of (files w) i = Some (Doc t0)"
    and w': "snd (updateTask e w i u) =
        saveTask (w\<lparr>reads := Suc (reads w)\<rparr>) ((spread t0 u)\<lparr>updatedAt := clock e (reads w)\<rparr>)"
  let ?t = "(spread t0 u)\<lparr>updatedAt := clock e (reads w)\<rparr>"
  from m have "(i, Doc t0) \<in> set (files w)" by (rule map_of_SomeD)
  with ok have t0: "createdAt t0 \<le> updatedAt t0" "updatedAt t0 \<le> clock e (reads w)"
    unfolding times_ok_iff by auto
  from mono have next_read: "clock e (reads w) \<le> clock e (Suc (reads w))" by simp
  have new: "createdAt ?t \<le> updatedAt ?t \<and> updatedAt ?t \<le> clock e (Suc (reads w))"
    using t0 u next_read by (simp add: spread_def)
  have "\<forall>(k, f) \<in> set (AList.update (task_id ?t) (Doc ?t) (files w)). \<forall>t. f = Doc t \<longrightarrow>
         createdAt t \<le> updatedAt t \<and> updatedAt t \<le> clock e (Suc (reads w))"
  proof (intro ballI, clarify)
    fix k t
    assume "(k, Doc t) \<in> set (AList.update (task_id ?t) (Doc ?t) (files w))"
    with set_update_subset [of "task_id ?t" "Doc ?t" "files w"]
    have "t = ?t \<or> (k, Doc t) \<in> set (files w)" by auto
    then show "createdAt t \<le> updatedAt t \<and> updatedAt t \<le> clock e (Suc (reads w))"
    proof
      assume "t = ?t"
      with new show ?thesis by simp
    next
      assume "(k, Doc t) \<in> set (files w)"
      with ok have "createdAt t \<le> updatedAt t" "updatedAt t \<le> clock e (reads w)"
        unfolding times_ok_iff by auto
      with next_read show ?thesis by simp
    qed
  qed
  then show ?thesis
    unfolding w' times_ok_iff by (simp add: saveTask_simps)
qed

lemma orderly_refl: "orderly e w w"
  by (simp add: orderly_def stamped_same)

lemma orderly_trans: "orderly e a b \<Longrightarrow> orderly e b c \<Longrightarrow> orderly e a c"
  by (auto simp: orderly_def intro: stamped_trans)

lemma orderly_calls:
  "orderly e w (w\<lparr>calls := cs\<rparr>)"
  by (simp add: orderly_def stamped_same times_ok_iff)

lemma orderly_updateTask:
  assumes "createdAt_upd u = None"
  shows "orderly e w (snd (updateTask e w i u))"
  unfolding orderly_def
proof (intro conjI impI)
  show "stamped e w (snd (updateTask e w i u))" by (rule stamped_updateTask)
next
  assume "store_wf (files w)"
  then show "store_wf (files (snd (updateTask e w i u)))" by (rule store_wf_updateTask)
next
  assume "(\<forall>m n. m \<le> n \<longrightarrow> clock e m \<le> clock e n) \<and> times_ok e w"
  with assms show "times_ok e (snd (updateTask e w i u))"
    by (intro times_ok_updateTask) simp_all
qed

lemma orderly_request_update:
  assumes "createdAt_upd u = None"
  shows "orderly e w (snd (updateTask e (w\<lparr>calls := cs\<rparr>) i u))"
  using orderly_calls orderly_updateTask [OF assms] by (rule orderly_trans)

lemma no_updates_createdAt [simp]:
  "createdAt_upd (no_updates\<lparr>status_upd := a\<rparr>) = None"
  "createdAt_upd (no_updates\<lparr>status_upd := a, githubPrUrl_upd := b\<rparr>) = None"
  "createdAt_upd (no_updates\<lparr>status_upd := a, error_upd := c\<rparr>) = None"
  "createdAt_upd (no_updates\<lparr>julesSessionId_upd := d, status_upd := a\<rparr>) = None"
  by (simp_all add: no_updates_def)

lemma orderly_cancelTask:
  shows "orderly e w (snd (cancelTask e w i))"
proof (cases "getTask (files w) i")
  case (Inl err)
  then show ?thesis by (simp add: cancelTask_def orderly_refl)
next
  case (Inr r)
  show ?thesis
  proof (cases r)
    case None
    with Inr show ?thesis by (simp add: cancelTask_def orderly_refl)
  next
    case (Some t)
    show ?thesis
    proof (cases "truthy (julesSessionId t)")
      case None
      have "snd (cancelTask e w i) = snd (updateTask e w i (no_updates\<lparr>status_upd := Some CANCELLED\<rparr>))"
        using Inr Some None by (simp add: cancelTask_def split: prod.splits sum.splits)
      then show ?thesis using orderly_updateTask by simp
    next
      case (Some sid)
      have "snd (cancelTask e w i) =
          snd (updateTask e (w\<lparr>calls := calls w @ [CancelSession sid]\<rparr>) i
                 (no_updates\<lparr>status_upd := Some CANCELLED\<rparr>))"
        using Inr \<open>r = Some t\<close> Some
        by (simp add: cancelTask_def cancelSession_def request_def split: prod.splits sum.splits)
      then show ?thesis using orderly_request_update by simp
    qed
  qed
qed


lemma orderly_approveTask:
  shows "orderly e w (snd (approveTask e w i))"
proof (cases "getTask (files w) i")
  case (Inl err)
  then show ?thesis by (simp add: approveTask_def orderly_refl)
next
  case (Inr r)
  show ?thesis
  proof (cases r)
    case None
    with Inr show ?thesis by (simp add: approveTask_def orderly_refl)
  next
    case (Some t)
    note t = Inr Some
    show ?thesis
    proof (cases "truthy (julesSessionId t)")
      case None
      with t show ?thesis by (simp add: approveTask_def orderly_refl)
    next
      case (Some sid)
      consider (plan) "status t = WAITING_FOR_PLAN_APPROVAL"
        | (diff) "status t = WAITING_FOR_DIFF_APPROVAL"
        | (other) "status t \<noteq> WAITING_FOR_PLAN_APPROVAL" "status t \<noteq> WAITING_FOR_DIFF_APPROVAL"
        by blast
      then show ?thesis
      proof cases
        case plan
        show ?thesis
        proof (cases "remote e (calls w) (ApprovePlan sid)")
          case (Inl m)
          with t Some plan have "snd (approveTask e w i) = w\<lparr>calls := calls w @ [ApprovePlan sid]\<rparr>"
            by (simp add: approveTask_def approvePlan_def request_def)
          then show ?thesis by (simp add: orderly_calls)
        next
          case (Inr x)
          with t Some plan have "snd (approveTask e w i) =
              snd (updateTask e (w\<lparr>calls := calls w @ [ApprovePlan sid]\<rparr>) i
                     (no_updates\<lparr>status_upd := Some RUNNING\<rparr>))"
            by (simp add: approveTask_def approvePlan_def request_def split: prod.splits sum.splits)
          then show ?thesis using orderly_request_update by simp
        qed
      next
        case diff
        show ?thesis
        proof (cases "remote e (calls w) (ApproveDiff sid)")
          case (Inl m)
          with t Some diff have "snd (approveTask e w i) = w\<lparr>calls := calls w @ [ApproveDiff sid]\<rparr>"
            by (simp add: approveTask_def approveDiff_def request_def)
          then show ?thesis by (simp add: orderly_calls)
        next
          case (Inr x)
          with t Some diff have "snd (approveTask e w i) =
              snd (updateTask e (w\<lparr>calls := calls w @ [ApproveDiff sid]\<rparr>) i
                     (no_updates\<lparr>status_upd := Some READY_FOR_PR\<rparr>))"
            by (simp add: approveTask_def approveDiff_def request_def split: prod.splits sum.splits)
          then show ?thesis using orderly_request_update by simp
        qed
      next
        case other
        with t Some show ?thesis by (simp add: approveTask_def orderly_refl)
      qed
    qed
  qed
qed

lemma orderly_createPrForTask:
  shows "orderly e w (snd (createPrForTask e w i branch ttl bdy))"
proof (cases "getTask (files w) i")
  case (Inl err)
  then show ?thesis by (simp add: createPrForTask_def orderly_refl)
next
  case (Inr r)
  show ?thesis
  proof (cases r)
    case None
    with Inr show ?thesis by (simp add: createPrForTask_def orderly_refl)
  next
    case (Some t)
    note t = Inr Some
    show ?thesis
    proof (cases "status t = READY_FOR_PR")
      case False
      with t show ?thesis by (simp add: createPrForTask_def orderly_refl)
    next
      case True
      let ?rq = "CreatePr \<lparr>pr_owner = fst (split_repo (repo t)), pr_repoName = snd (split_repo (repo t)),
              pr_title = js_or ttl (title t), pr_body = js_or bdy (description t),
              pr_head = branch, pr_base = ''main''\<rparr>"
      show ?thesis
      proof (cases "remote e (calls w) ?rq")
        case (Inl m)
        with t True have "snd (createPrForTask e w i branch ttl bdy) = w\<lparr>calls := calls w @ [?rq]\<rparr>"
          by (simp add: createPrForTask_def createPr_def request_def split_beta)
        then show ?thesis by (simp add: orderly_calls)
      next
        case (Inr url)
        with t True have "snd (createPrForTask e w i branch ttl bdy) =
            snd (updateTask e (w\<lparr>calls := calls w @ [?rq]\<rparr>) i
                   (no_updates\<lparr>status_upd := Some PR_CREATED, githubPrUrl_upd := Some url\<rparr>))"
          by (simp add: createPrForTask_def createPr_def request_def split_beta
                split: prod.splits sum.splits)
        then show ?thesis using orderly_request_update by simp
      qed
    qed
  qed
qed

lemma orderly_poll_task:
  shows "orderly e w (poll_task e w t)"
proof (cases "\<not> (status t = RUNNING \<or> status t = PLANNING \<or> status t = QUEUED) \<or>
   truthy (julesSessionId t) = None")
  case True
  then show ?thesis by (simp add: poll_task_skip orderly_refl)
next
  case False
  then obtain sid where p: "status t = RUNNING \<or> status t = PLANNING \<or> status t = QUEUED"
    and sid: "truthy (julesSessionId t) = Some sid" by auto
  show ?thesis
  proof (cases "remote e (calls w) (GetSessionStatus sid)")
    case (Inl m)
    from poll_task_failed [OF p sid Inl] show ?thesis by (simp add: orderly_calls)
  next
    case (Inr state)
    show ?thesis
    proof (cases "map_state (status t) state = status t")
      case True
      from poll_task_same [OF p sid Inr True] show ?thesis by (simp add: orderly_calls)
    next
      case False
      show ?thesis
        unfolding poll_task_write [OF p sid Inr False]
        using orderly_request_update by simp
    qed
  qed
qed

lemma orderly_poll_all:
  shows "orderly e w (poll_all e ts w)"
proof (induction ts arbitrary: w)
  case Nil
  then show ?case by (simp add: orderly_refl)
next
  case (Cons t ts)
  from orderly_poll_task Cons.IH show ?case
    by (simp, rule orderly_trans)
qed

lemma orderly_createTask:
  shows "orderly e w (snd (createTask e w p rid))"
proof -
  define task where "task =
     \<lparr>task_id = rid, title = p_title p, description = p_description p,
      repo = js_or (p_repo p) (defaultRepo e), status = NEW,
      julesSessionId = None, githubPrUrl = None,
      createdAt = clock e (reads w), updatedAt = clock e (Suc (reads w)), error = None\<rparr>"
  define w3 where "w3 = saveTask (w\<lparr>reads := Suc (Suc (reads w))\<rparr>) task"
  define w4 where "w4 = w3\<lparr>calls := calls w @ [CreateSession (repo task) (description task)]\<rparr>"
  have st: "stamped e w w3"
    unfolding stamped_def
  proof (intro conjI allI)
    show "reads w \<le> reads w3" by (simp add: w3_def saveTask_simps)
  next
    fix k
    show "map_of (files w3) k = map_of (files w) k \<or>
       (\<exists>t n. map_of (files w3) k = Some (Doc t) \<and> updatedAt t = clock e n \<and> reads w \<le> n \<and> n < reads w3)"
    proof (cases "k = rid")
      case True
      then have "map_of (files w3) k = Some (Doc task) \<and> updatedAt task = clock e (Suc (reads w)) \<and>
          reads w \<le> Suc (reads w) \<and> Suc (reads w) < reads w3"
        by (simp add: w3_def saveTask_simps AList.update_conv' task_def)
      then show ?thesis by blast
    next
      case False
      then show ?thesis by (simp add: w3_def saveTask_simps AList.update_conv' task_def)
    qed
  qed
  have wf: "store_wf (files w3)" if "store_wf (files w)"
    using that by (simp add: w3_def saveTask_simps task_def store_wf_update)
  have ok: "times_ok e w3"
    if mono: "\<forall>m n. m \<le> n \<longrightarrow> clock e m \<le> clock e n" and ok0: "times_ok e w"
    unfolding times_ok_iff
  proof (intro ballI, clarify)
    have c01: "clock e (reads w) \<le> clock e (Suc (reads w))"
      and c12: "clock e (Suc (reads w)) \<le> clock e (Suc (Suc (reads w)))"
      and c02: "clock e (reads w) \<le> clock e (Suc (Suc (reads w)))"
      using mono by simp_all
    fix k t
    assume "(k, Doc t) \<in> set (files w3)"
    with set_update_subset [of rid "Doc task" "files w"]
    have "t = task \<or> (k, Doc t) \<in> set (files w)"
      by (auto simp: w3_def saveTask_simps task_def)
    then show "createdAt t \<le> updatedAt t \<and> updatedAt t \<le> clock e (reads w3)"
    proof
      assume "t = task"
      with c01 c12 show ?thesis by (simp add: task_def w3_def saveTask_simps)
    next
      assume "(k, Doc t) \<in> set (files w)"
      with ok0 have "createdAt t \<le> updatedAt t" "updatedAt t \<le> clock e (reads w)"
        unfolding times_ok_iff by auto
      with c02 show ?thesis by (simp add: w3_def saveTask_simps)
    qed
  qed
  from st wf ok have 1: "orderly e w w3" by (simp add: orderly_def)
  have 2: "orderly e w3 w4" unfolding w4_def by (rule orderly_calls)
  have 3: "orderly e w4 (snd (createTask e w p rid))"
  proof (cases "remote e (calls w) (CreateSession (repo task) (description task))")
    case (Inl m)
    then have "snd (createTask e w p rid) =
        snd (updateTask e w4 rid (no_updates\<lparr>status_upd := Some FAILED, error_upd := Some m\<rparr>))"
      by (simp add: createTask_def new_Date_def createSession_def request_def Let_def
            task_def w3_def w4_def saveTask_def)
    then show ?thesis using orderly_updateTask by simp
  next
    case (Inr sid)
    let ?u1 = "no_updates\<lparr>julesSessionId_upd := Some sid, status_upd := Some PLANNING\<rparr>"
    obtain r w5 where u: "updateTask e w4 rid ?u1 = (r, w5)" by (cases "updateTask e w4 rid ?u1")
    then have w5: "w5 = snd (updateTask e w4 rid ?u1)" by simp
    have 45: "orderly e w4 w5" unfolding w5 using orderly_updateTask by simp
    show ?thesis
    proof (cases r)
      case (Inl err)
      with Inr u have "snd (createTask e w p rid) =
          snd (updateTask e w5 rid (no_updates\<lparr>status_upd := Some FAILED, error_upd := Some (message err)\<rparr>))"
        by (simp add: createTask_def new_Date_def createSession_def request_def Let_def
              task_def w3_def w4_def saveTask_def)
      with orderly_updateTask [where u = "no_updates\<lparr>status_upd := Some FAILED, error_upd := Some (message err)\<rparr>"
             and w = w5 and i = rid and e = e]
      have "orderly e w5 (snd (createTask e w p rid))" by simp
      with 45 show ?thesis by (rule orderly_trans)
    next
      case (Inr t)
      with \<open>remote e (calls w) (CreateSession (repo task) (description task)) = Inr sid\<close> u
      have "snd (createTask e w p rid) = w5"
        by (simp add: createTask_def new_Date_def createSession_def request_def Let_def
              task_def w3_def w4_def saveTask_def)
      with 45 show ?thesis by simp
    qed
  qed
  from 1 2 3 show ?thesis by (blast intro: orderly_trans)
qed

lemma orderly_exec:
  shows "orderly e w (exec e c w)"
proof (cases c)
  case ListTasks
  then show ?thesis by (simp add: exec_def gw_listTasks_def orderly_refl)
next
  case (GetTask i)
  then show ?thesis by (simp add: exec_def gw_getTask_def orderly_refl)
next
  case (CreateTask p rid)
  then show ?thesis by (simp add: exec_def orderly_createTask)
next
  case (ApproveTask i)
  then show ?thesis by (simp add: exec_def orderly_approveTask)
next
  case (CancelTask i)
  then show ?thesis by (simp add: exec_def orderly_cancelTask)
next
  case (CreatePrForTask i branch ttl bdy)
  then show ?thesis by (simp add: exec_def orderly_createPrForTask)
next
  case Tick
  then show ?thesis by (simp add: exec_def run_def orderly_poll_all)
qed

lemma orderly_exec_all:
  shows "orderly e w (exec_all e cs w)"
proof (induction cs arbitrary: w)
  case Nil
  then show ?case by (simp add: orderly_refl)
next
  case (Cons c cs)
  from orderly_exec Cons.IH show ?case
    by (simp, rule orderly_trans)
qed


text \<open>
  The directory stays as \<open>saveTask\<close> leaves it through every sequence of gateway calls
  and ticks; the empty directory is so.
\<close>

lemma store_wf_exec_all: "store_wf (files w) \<Longrightarrow> store_wf (files (exec_all e cs w))"
  using orderly_exec_all [of e w cs] by (simp add: orderly_def)

lemma store_wf_empty: "store_wf []"
  by (simp add: store_wf_def)

lemmas run_defs = exec_def run_def poll_task_def map_state_def gw_listTasks_def gw_getTask_def

text \<open>
  Claim C2, as the code has it. \<open>updatedAt\<close> is written as the reading of the clock at the
  write, so it follows the clock: a file that a gateway call or a tick changes holds
  afterwards a task whose \<open>updatedAt\<close> is a reading of the clock taken during that call or
  tick, and listing and getting write nothing. With a clock that never goes back: from a
  world whose timestamps are in order (the empty directory is one), after any sequence of
  gateway calls and ticks the timestamps are in order again, so every stored task has
  \<open>createdAt\<close> no later than \<open>updatedAt\<close>; and when a call or tick changes the file of a
  task and a later sequence of calls and ticks changes it again, the two values of
  \<open>updatedAt\<close> are readings of the clock, the second taken later, so the second is no
  smaller than the first, and greater when the clock increases strictly.
\<close>

theorem updatedAt_follows_clock:
  "((\<forall>m n. m \<le> n \<longrightarrow> clock e m \<le> clock e n) \<and> times_ok e w \<longrightarrow>
            times_ok e (exec_all e cs w) \<and>
            (\<forall>i t. map_of (files (exec_all e cs w)) i = Some (Doc t) \<longrightarrow> createdAt t \<le> updatedAt t)) \<and>
         ((\<forall>m n. m \<le> n \<longrightarrow> clock e m \<le> clock e n) \<and>
          map_of (files (exec e c w)) k \<noteq> map_of (files w) k \<and>
          map_of (files (exec_all e cs (exec e c w))) k \<noteq> map_of (files (exec e c w)) k \<longrightarrow>
            (\<exists>t1 t2 n1 n2.
               map_of (files (exec e c w)) k = Some (Doc t1) \<and>
               map_of (files (exec_all e cs (exec e c w))) k = Some (Doc t2) \<and>
               updatedAt t1 = clock e n1 \<and> updatedAt t2 = clock e n2 \<and> n1 < n2 \<and>
               updatedAt t1 \<le> updatedAt t2 \<and>
               ((\<forall>m n. m < n \<longrightarrow> clock e m < clock e n) \<longrightarrow> updatedAt t1 < updatedAt t2))) \<and>
         (map_of (files (exec e c w)) k \<noteq> map_of (files w) k \<longrightarrow>
            (\<exists>t n. map_of (files (exec e c w)) k = Some (Doc t) \<and> updatedAt t = clock e n \<and>
                   reads w \<le> n \<and> n < reads (exec e c w))) \<and>
         files (exec e ListTasks w) = files w \<and> files (exec e (GetTask i) w) = files w"
proof (intro conjI impI)
  assume "(\<forall>m n. m \<le> n \<longrightarrow> clock e m \<le> clock e n) \<and> times_ok e w"
  then have mono: "\<forall>m n. m \<le> n \<longrightarrow> clock e m \<le> clock e n" and ok: "times_ok e w"
    by simp_all
  with orderly_exec_all [of e w cs]
  show ok': "times_ok e (exec_all e cs w)" by (simp add: orderly_def)
  show "\<forall>i t. map_of (files (exec_all e cs w)) i = Some (Doc t) \<longrightarrow> createdAt t \<le> updatedAt t"
  proof (intro allI impI)
    fix i t
    assume "map_of (files (exec_all e cs w)) i = Some (Doc t)"
    then have "(i, Doc t) \<in> set (files (exec_all e cs w))" by (rule map_of_SomeD)
    with ok' show "createdAt t \<le> updatedAt t" unfolding times_ok_iff by auto
  qed
next
  let ?w1 = "exec e c w" and ?w2 = "exec_all e cs (exec e c w)"
  assume a: "(\<forall>m n. m \<le> n \<longrightarrow> clock e m \<le> clock e n) \<and>
      map_of (files ?w1) k \<noteq> map_of (files w) k \<and> map_of (files ?w2) k \<noteq> map_of (files ?w1) k"
  then have mono: "\<forall>m n. m \<le> n \<longrightarrow> clock e m \<le> clock e n"
    and ch: "map_of (files ?w1) k \<noteq> map_of (files w) k \<and> map_of (files ?w2) k \<noteq> map_of (files ?w1) k"
    by simp_all
  from orderly_exec [of e w c] have "stamped e w ?w1" by (simp add: orderly_def)
  with ch obtain t1 n1 where 1: "map_of (files ?w1) k = Some (Doc t1)" "updatedAt t1 = clock e n1"
    "n1 < reads ?w1"
    unfolding stamped_def by blast
  from orderly_exec_all [of e ?w1 cs] have "stamped e ?w1 ?w2" by (simp add: orderly_def)
  with ch obtain t2 n2 where 2: "map_of (files ?w2) k = Some (Doc t2)" "updatedAt t2 = clock e n2"
    "reads ?w1 \<le> n2"
    unfolding stamped_def by blast
  from 1 2 have lt: "n1 < n2" by simp
  with mono have le: "clock e n1 \<le> clock e n2" by simp
  have "map_of (files ?w1) k = Some (Doc t1) \<and> map_of (files ?w2) k = Some (Doc t2) \<and>
        updatedAt t1 = clock e n1 \<and> updatedAt t2 = clock e n2 \<and> n1 < n2 \<and>
        updatedAt t1 \<le> updatedAt t2 \<and>
        ((\<forall>m n. m < n \<longrightarrow> clock e m < clock e n) \<longrightarrow> updatedAt t1 < updatedAt t2)"
    using 1 2 lt le by simp
  then show "\<exists>t1 t2 n1 n2.
               map_of (files ?w1) k = Some (Doc t1) \<and> map_of (files ?w2) k = Some (Doc t2) \<and>
               updatedAt t1 = clock e n1 \<and> updatedAt t2 = clock e n2 \<and> n1 < n2 \<and>
               updatedAt t1 \<le> updatedAt t2 \<and>
               ((\<forall>m n. m < n \<longrightarrow> clock e m < clock e n) \<longrightarrow> updatedAt t1 < updatedAt t2)"
    by blast
next
  assume "map_of (files (exec e c w)) k \<noteq> map_of (files w) k"
  moreover from orderly_exec [of e w c] have "stamped e w (exec e c w)" by (simp add: orderly_def)
  ultimately show "\<exists>t n. map_of (files (exec e c w)) k = Some (Doc t) \<and> updatedAt t = clock e n \<and>
                   reads w \<le> n \<and> n < reads (exec e c w)"
    unfolding stamped_def by blast
next
  show "files (exec e ListTasks w) = files w" by (simp add: exec_def gw_listTasks_def)
  show "files (exec e (GetTask i) w) = files w" by (simp add: exec_def gw_getTask_def)
qed

text \<open>
  Claim C2 as stated fails. With a clock that gives the same reading twice, an approval
  and the tick after it both change the task and leave the same \<open>updatedAt\<close>, 1000. With a
  clock set back between reads, \<open>createTask\<close> returns a task created at 1000 and updated
  at 998.
\<close>

theorem updatedAt_counterexample:
  "map_of (files (exec env_frozen (ApproveTask ''t1'')
                    (world1 (task1 WAITING_FOR_PLAN_APPROVAL (Some ''s1''))))) ''t1'' =
     Some (Doc ((task1 WAITING_FOR_PLAN_APPROVAL (Some ''s1''))
                  \<lparr>status := RUNNING, updatedAt := 1000\<rparr>)) \<and>
   map_of (files (exec env_frozen Tick
                    (exec env_frozen (ApproveTask ''t1'')
                       (world1 (task1 WAITING_FOR_PLAN_APPROVAL (Some ''s1'')))))) ''t1'' =
     Some (Doc ((task1 WAITING_FOR_PLAN_APPROVAL (Some ''s1''))
                  \<lparr>status := READY_FOR_PR, updatedAt := 1000\<rparr>)) \<and>
   fst (createTask env_back world0
          \<lparr>p_title = ''fix bug'', p_description = ''the bug'', p_repo = None\<rparr> ''k3x9'') =
     Inr \<lparr>task_id = ''k3x9'', title = ''fix bug'', description = ''the bug'',
          repo = ''org/default'', status = PLANNING, julesSessionId = Some ''s1'',
          githubPrUrl = None, createdAt = 1000, updatedAt = 998, error = None\<rparr>"
  by (simp add: run_defs eval_defs)


text \<open>
  An approval at reading 1000, then a tick at reading 1001, from a world whose timestamps
  are in order.
\<close>

theorem updatedAt_follows_clock_witness:
  "times_ok env_up (world1 (task1 WAITING_FOR_PLAN_APPROVAL (Some ''s1''))) \<and>
   times_ok env_up (exec_all env_up [ApproveTask ''t1'', Tick]
                      (world1 (task1 WAITING_FOR_PLAN_APPROVAL (Some ''s1'')))) \<and>
   map_of (files (exec env_up (ApproveTask ''t1'')
                    (world1 (task1 WAITING_FOR_PLAN_APPROVAL (Some ''s1''))))) ''t1'' =
     Some (Doc ((task1 WAITING_FOR_PLAN_APPROVAL (Some ''s1''))
                  \<lparr>status := RUNNING, updatedAt := 1000\<rparr>)) \<and>
   map_of (files (exec_all env_up [Tick]
                    (exec env_up (ApproveTask ''t1'')
                       (world1 (task1 WAITING_FOR_PLAN_APPROVAL (Some ''s1'')))))) ''t1'' =
     Some (Doc ((task1 WAITING_FOR_PLAN_APPROVAL (Some ''s1''))
                  \<lparr>status := READY_FOR_PR, updatedAt := 1001\<rparr>)) \<and>
   (\<exists>t1 t2.
      map_of (files (exec env_up (ApproveTask ''t1'')
                       (world1 (task1 WAITING_FOR_PLAN_APPROVAL (Some ''s1''))))) ''t1'' =
        Some (Doc t1) \<and>
      map_of (files (exec_all env_up [Tick]
                       (exec env_up (ApproveTask ''t1'')
                          (world1 (task1 WAITING_FOR_PLAN_APPROVAL (Some ''s1'')))))) ''t1'' =
        Some (Doc t2) \<and>
      updatedAt t1 < updatedAt t2)"
proof -
  let ?w = "world1 (task1 WAITING_FOR_PLAN_APPROVAL (Some ''s1''))"
  let ?w1 = "exec env_up (ApproveTask ''t1'') ?w"
  let ?w2 = "exec_all env_up [Tick] ?w1"
  have mono: "\<forall>m n. m \<le> n \<longrightarrow> clock env_up m \<le> clock env_up n"
    by (simp add: env_up_def)
  have strict: "\<forall>m n. m < n \<longrightarrow> clock env_up m < clock env_up n"
    by (simp add: env_up_def)
  have ok: "times_ok env_up ?w"
    by (simp add: times_ok_def world1_def task1_def env_up_def)
  have before: "map_of (files ?w) ''t1'' = Some (Doc (task1 WAITING_FOR_PLAN_APPROVAL (Some ''s1'')))"
    by (simp add: world1_def task1_def)
  have first: "map_of (files ?w1) ''t1'' =
     Some (Doc ((task1 WAITING_FOR_PLAN_APPROVAL (Some ''s1''))\<lparr>status := RUNNING, updatedAt := 1000\<rparr>))"
    by (simp add: run_defs eval_defs)
  have second: "map_of (files ?w2) ''t1'' =
     Some (Doc ((task1 WAITING_FOR_PLAN_APPROVAL (Some ''s1''))\<lparr>status := READY_FOR_PR, updatedAt := 1001\<rparr>))"
    by (simp add: run_defs eval_defs)
  have changed: "map_of (files ?w1) ''t1'' \<noteq> map_of (files ?w) ''t1'' \<and>
      map_of (files ?w2) ''t1'' \<noteq> map_of (files ?w1) ''t1''"
    unfolding before first second by (simp add: task1_def)
  from updatedAt_follows_clock [where e = env_up and w = ?w
         and cs = "[ApproveTask ''t1'', Tick]", THEN conjunct1, THEN mp, OF conjI [OF mono ok]]
  have after: "times_ok env_up (exec_all env_up [ApproveTask ''t1'', Tick] ?w)"
    by (rule conjunct1)
  from updatedAt_follows_clock [where e = env_up and w = ?w and c = "ApproveTask ''t1''"
         and cs = "[Tick]" and k = "''t1''",
         THEN conjunct2, THEN conjunct1, THEN mp, OF conjI [OF mono changed]] strict
  have "\<exists>t1 t2. map_of (files ?w1) ''t1'' = Some (Doc t1) \<and>
      map_of (files ?w2) ''t1'' = Some (Doc t2) \<and> updatedAt t1 < updatedAt t2"
    by blast
  with ok after first second show ?thesis by blast
qed

end
